theory Spec2Isabelle
  imports Main
begin

section \<open>Values shared by the two components\<close>

text \<open>
  Model nodes, as far as the insert operation and the converters look at them: a text
  node carries its character data, an element its name and its children.
\<close>

datatype node = Text string | Element string "node list"

text \<open>
  View items. The dispatcher distinguishes elements, text nodes and anything else
  (document fragments); elements and fragments enumerate their children.
\<close>

datatype viewItem =
    ViewElement string "viewItem list"
  | ViewText string
  | ViewDocumentFragment "viewItem list"

text \<open>
  JavaScript values that travel through the dispatcher: the primitives, arrays, view
  items, model nodes and references to mutable objects kept in the world (a context
  stack, the consumable tracker).
\<close>

datatype jsval =
    Null
  | Undefined
  | Bool bool
  | Num int
  | NaN
  | Str string
  | Arr "jsval list"
  | View viewItem
  | Model node
  | Ref nat

text \<open>JavaScript truthiness, as the conditional operator tests it.\<close>

fun truthy :: "jsval \<Rightarrow> bool" where
  "truthy Null = False"
| "truthy Undefined = False"
| "truthy (Bool b) = b"
| "truthy (Num n) = (n \<noteq> 0)"
| "truthy NaN = False"
| "truthy (Str s) = (s \<noteq> [])"
| "truthy (Arr xs) = True"
| "truthy (View v) = True"
| "truthy (Model m) = True"
| "truthy (Ref r) = True"

section \<open>ViewConversionDispatcher\<close>

subsection \<open>The request record\<close>

text \<open>
  The \<open>data\<close> object handed to callbacks is a JavaScript object: a finite map from
  property names to values. A property that holds an object holds a reference to it, so
  copying the map copies references.
\<close>

type_synonym data = "string \<Rightarrow> jsval option"

definition getProp :: "data \<Rightarrow> string \<Rightarrow> jsval" where
  "getProp d p = (case d p of None \<Rightarrow> Undefined | Some v \<Rightarrow> v)"

text \<open>\<^verbatim>\<open>extend( {}, additionalData, { input: input, output: null } )\<close>\<close>

definition extend_js :: "data \<Rightarrow> jsval \<Rightarrow> data" where
  "extend_js additionalData input = additionalData(''input'' \<mapsto> input, ''output'' \<mapsto> Null)"

subsection \<open>Errors, events, outcomes\<close>

text \<open>
  A call ends with a value or with an error: an exception thrown by a callback or a
  collaborator, the \<open>TypeError\<close> of using a value that lacks what is asked of it, or
  the exhaustion of the call stack by callbacks that re-enter the dispatcher without end.
  \<open>Unmodelled\<close> marks an input on which the source goes on with a value that the types
  of this model cannot hold (a base version that is not a number, say): the model makes no
  statement about it.
\<close>

datatype error = Thrown jsval | TypeError | StackExhausted | Unmodelled

text \<open>
  What the dispatcher did, in the order it did it: \<open>Fired name subject nested\<close> is one
  call of \<open>this.fire\<close> with the event name, the view item the event is about, and the
  events that happened while its callbacks ran; \<open>ConsumableCreated v\<close> is one call of
  \<open>ViewConsumable.createFrom( v )\<close>.
\<close>

datatype event = Fired string jsval "event list" | ConsumableCreated jsval

text \<open>
  An outcome is the value or error, the world the call leaves behind (an exception does
  not undo what was done before it) and the events of the call.
\<close>

type_synonym ('a, 'w) outcome = "(error + 'a) \<times> 'w \<times> event list"

definition andThen ::
  "('a, 'w) outcome \<Rightarrow> ('a \<Rightarrow> 'w \<Rightarrow> ('b, 'w) outcome) \<Rightarrow> ('b, 'w) outcome" where
  "andThen m f =
     (case m of
        (Inl e, w, tr) \<Rightarrow> (Inl e, w, tr)
      | (Inr a, w, tr) \<Rightarrow> (case f a w of (r, w', tr') \<Rightarrow> (r, w', tr @ tr')))"

subsection \<open>Callbacks\<close>

text \<open>
  A converter callback receives the request record, the consumable and the world
  \<open>'w\<close> (everything mutable it can reach: the view and model trees, the consumable
  tracker, context stacks). It computes on them and either returns, leaving the record
  and the world as it made them, or throws, or calls \<open>conversionApi.convertItem\<close> or
  \<open>conversionApi.convertChildren\<close> and goes on with the result and the world the
  call left. The callback reaches the dispatcher only through these two entry points.
\<close>

datatype 'w callback =
    Done data 'w
  | Throw jsval 'w
  | ConvertItem jsval jsval data 'w "jsval \<Rightarrow> 'w \<Rightarrow> 'w callback"
  | ConvertChildren jsval jsval data 'w "jsval list \<Rightarrow> 'w \<Rightarrow> 'w callback"

type_synonym 'w listener = "data \<Rightarrow> jsval \<Rightarrow> 'w \<Rightarrow> 'w callback"

text \<open>
  A listener of \<open>viewCleanup\<close> receives the view item only; it may change the item in
  place, so it returns the item as it left it.
\<close>

type_synonym 'w cleanupListener = "jsval \<Rightarrow> 'w \<Rightarrow> (error + jsval) \<times> 'w"

record 'w conversionApi =
  apiConvertItem :: "jsval \<Rightarrow> jsval \<Rightarrow> data \<Rightarrow> 'w \<Rightarrow> (jsval, 'w) outcome"
  apiConvertChildren :: "jsval \<Rightarrow> jsval \<Rightarrow> data \<Rightarrow> 'w \<Rightarrow> (jsval list, 'w) outcome"

primrec runCallback :: "'w conversionApi \<Rightarrow> 'w callback \<Rightarrow> (data, 'w) outcome" where
  "runCallback api (Done d w) = (Inr d, w, [])"
| "runCallback api (Throw e w) = (Inl (Thrown e), w, [])"
| "runCallback api (ConvertItem i c ad w k) =
     andThen (apiConvertItem api i c ad w) (\<lambda>v w'. runCallback api (k v w'))"
| "runCallback api (ConvertChildren i c ad w k) =
     andThen (apiConvertChildren api i c ad w) (\<lambda>vs w'. runCallback api (k vs w'))"

text \<open>
  Modelled from the spec: \<open>EmitterMixin.fire\<close> is not among the sources. The callbacks
  registered for the event are invoked synchronously, in registration order, sharing the
  same request record and consumable (each callback gets the record as the one before it
  left it); an exception of one of them ends the dispatch.
  Which callbacks an event name selects (exact name, namespace) is the emitter's business
  and is a parameter here: the list passed in.
\<close>

primrec fire ::
  "'w conversionApi \<Rightarrow> 'w listener list \<Rightarrow> data \<Rightarrow> jsval \<Rightarrow> 'w \<Rightarrow> (data, 'w) outcome" where
  "fire api [] d c w = (Inr d, w, [])"
| "fire api (l # ls) d c w =
     andThen (runCallback api (l d c w)) (\<lambda>d' w'. fire api ls d' c w')"

primrec fireCleanup :: "'w cleanupListener list \<Rightarrow> jsval \<Rightarrow> 'w \<Rightarrow> (error + jsval) \<times> 'w" where
  "fireCleanup [] v w = (Inr v, w)"
| "fireCleanup (l # ls) v w =
     (case l v w of
        (Inl e, w') \<Rightarrow> (Inl e, w')
      | (Inr v', w') \<Rightarrow> fireCleanup ls v' w')"

subsection \<open>The dispatcher\<close>

text \<open>
  A dispatcher is its registered callbacks. \<open>ViewConsumable.createFrom\<close> is not among the
  sources and is a parameter: it builds the tracker in the world and returns the reference
  to it.
\<close>

record 'w dispatcher =
  cleanupListeners :: "'w cleanupListener list"
  listeners :: "string \<Rightarrow> 'w listener list"
  createFrom :: "jsval \<Rightarrow> 'w \<Rightarrow> jsval \<times> 'w"

definition isViewElement :: "jsval \<Rightarrow> bool" where
  "isViewElement v = (case v of View (ViewElement n cs) \<Rightarrow> True | _ \<Rightarrow> False)"

definition isViewText :: "jsval \<Rightarrow> bool" where
  "isViewText v = (case v of View (ViewText t) \<Rightarrow> True | _ \<Rightarrow> False)"

definition nameOf :: "jsval \<Rightarrow> string" where
  "nameOf v = (case v of View (ViewElement n cs) \<Rightarrow> n | _ \<Rightarrow> [])"

text \<open>
  \<open>_convertItem\<close>, given the conversion interface its callbacks will see. The event
  wraps what happened while the callbacks ran.
\<close>

definition emit ::
  "'w conversionApi \<Rightarrow> (string \<Rightarrow> 'w listener list) \<Rightarrow> string \<Rightarrow> data \<Rightarrow> jsval \<Rightarrow> 'w \<Rightarrow>
     (data, 'w) outcome" where
  "emit api ls name d c w =
     (case fire api (ls name) d c w of
        (r, w', tr) \<Rightarrow> (r, w', [Fired name (getProp d ''input'') tr]))"

definition convertItemWith ::
  "'w conversionApi \<Rightarrow> (string \<Rightarrow> 'w listener list) \<Rightarrow> jsval \<Rightarrow> jsval \<Rightarrow> data \<Rightarrow> 'w \<Rightarrow>
     (jsval, 'w) outcome" where
  "convertItemWith api ls input consumable additionalData w =
     (let d = extend_js additionalData input
      in andThen
           (if isViewElement input then emit api ls (''element:'' @ nameOf input) d consumable w
            else if isViewText input then emit api ls ''text'' d consumable w
            else emit api ls ''documentFragment'' d consumable w)
           (\<lambda>d' w'. (Inr (getProp d' ''output''), w', [])))"

text \<open>\<open>input.getChildren()\<close>: elements and fragments have the method, nothing else has.\<close>

definition getChildren :: "jsval \<Rightarrow> error + jsval list" where
  "getChildren input =
     (case input of
        View (ViewElement n cs) \<Rightarrow> Inr (map View cs)
      | View (ViewDocumentFragment cs) \<Rightarrow> Inr (map View cs)
      | _ \<Rightarrow> Inl TypeError)"

text \<open>\<open>viewChildren.map( viewChild => this._convertItem( viewChild, consumable, additionalData ) )\<close>\<close>

primrec mapItems ::
  "(jsval \<Rightarrow> jsval \<Rightarrow> data \<Rightarrow> 'w \<Rightarrow> (jsval, 'w) outcome) \<Rightarrow> jsval list \<Rightarrow> jsval \<Rightarrow> data \<Rightarrow> 'w \<Rightarrow>
     (jsval list, 'w) outcome" where
  "mapItems ci [] c ad w = (Inr [], w, [])"
| "mapItems ci (x # xs) c ad w =
     andThen (ci x c ad w) (\<lambda>v w'.
       andThen (mapItems ci xs c ad w') (\<lambda>vs w''. (Inr (v # vs), w'', [])))"

text \<open>\<open>a.concat( b )\<close>: an array argument is spread, any other value is appended.\<close>

definition concat_js :: "jsval list \<Rightarrow> jsval \<Rightarrow> jsval list" where
  "concat_js a b = (case b of Arr xs \<Rightarrow> a @ xs | _ \<Rightarrow> a @ [b])"

text \<open>\<open>( a, b ) => b ? a.concat( b ) : a\<close>\<close>

definition flattenStep :: "jsval list \<Rightarrow> jsval \<Rightarrow> jsval list" where
  "flattenStep a b = (if truthy b then concat_js a b else a)"

definition convertChildrenWith ::
  "(jsval \<Rightarrow> jsval \<Rightarrow> data \<Rightarrow> 'w \<Rightarrow> (jsval, 'w) outcome) \<Rightarrow> jsval \<Rightarrow> jsval \<Rightarrow> data \<Rightarrow> 'w \<Rightarrow>
     (jsval list, 'w) outcome" where
  "convertChildrenWith ci input consumable additionalData w =
     (case getChildren input of
        Inl e \<Rightarrow> (Inl e, w, [])
      | Inr viewChildren \<Rightarrow>
          andThen (mapItems ci viewChildren consumable additionalData w)
            (\<lambda>convertedChildren w'. (Inr (foldl flattenStep [] convertedChildren), w', [])))"

text \<open>
  Callbacks re-enter the dispatcher, and nothing bounds how often: the first argument is
  the depth of nested \<open>_convertItem\<close> calls the stack still has room for. The callbacks
  of a call with room \<open>Suc n\<close> see an interface with room \<open>n\<close>.
\<close>

primrec convertItem ::
  "nat \<Rightarrow> 'w dispatcher \<Rightarrow> jsval \<Rightarrow> jsval \<Rightarrow> data \<Rightarrow> 'w \<Rightarrow> (jsval, 'w) outcome" where
  "convertItem 0 D = (\<lambda>input consumable additionalData w. (Inl StackExhausted, w, []))"
| "convertItem (Suc n) D =
     convertItemWith
       \<lparr> apiConvertItem = convertItem n D,
         apiConvertChildren = convertChildrenWith (convertItem n D) \<rparr>
       (listeners D)"

definition convertChildren ::
  "nat \<Rightarrow> 'w dispatcher \<Rightarrow> jsval \<Rightarrow> jsval \<Rightarrow> data \<Rightarrow> 'w \<Rightarrow> (jsval list, 'w) outcome" where
  "convertChildren n D = convertChildrenWith (convertItem n D)"

definition conversionApiOf :: "nat \<Rightarrow> 'w dispatcher \<Rightarrow> 'w conversionApi" where
  "conversionApiOf n D =
     \<lparr> apiConvertItem = convertItem n D, apiConvertChildren = convertChildren n D \<rparr>"

text \<open>\<open>convert( viewItem, additionalData )\<close>\<close>

definition convert ::
  "nat \<Rightarrow> 'w dispatcher \<Rightarrow> jsval \<Rightarrow> data \<Rightarrow> 'w \<Rightarrow> (jsval, 'w) outcome" where
  "convert n D viewItem additionalData w =
     (case fireCleanup (cleanupListeners D) viewItem w of
        (Inl e, w1) \<Rightarrow> (Inl e, w1, [Fired ''viewCleanup'' viewItem []])
      | (Inr item, w1) \<Rightarrow>
          (case createFrom D item w1 of
             (consumable, w2) \<Rightarrow>
               (case convertItem n D item consumable additionalData w2 of
                  (r, w3, tr) \<Rightarrow>
                    (r, w3, Fired ''viewCleanup'' viewItem [] # ConsumableCreated item # tr))))"

subsection \<open>What the specification says, in its own terms\<close>

text \<open>The notification an item selects, by its kind.\<close>

fun eventName :: "jsval \<Rightarrow> string" where
  "eventName (View (ViewElement name cs)) = ''element:'' @ name"
| "eventName (View (ViewText t)) = ''text''"
| "eventName v = ''documentFragment''"

text \<open>What one child's result adds to the array \<open>_convertChildren\<close> returns.\<close>

definition contribution :: "jsval \<Rightarrow> jsval list" where
  "contribution b = (if truthy b then (case b of Arr xs \<Rightarrow> xs | _ \<Rightarrow> [b]) else [])"

text \<open>
  The sentence of the specification about \<open>convertChildren\<close>, read word for word: the
  per-child results concatenated in order, with the null and the absent ones omitted.
\<close>

definition withoutNulls :: "jsval list \<Rightarrow> jsval list" where
  "withoutNulls outs =
     concat (map (\<lambda>b. if b = Null \<or> b = Undefined then []
                       else (case b of Arr xs \<Rightarrow> xs | _ \<Rightarrow> [b])) outs)"

section \<open>A small dispatcher to run\<close>

text \<open>
  Modelled from the spec: the consumable tracker, as far as the examples need it. The
  world of the examples is the list of facets consumed so far, newest first; a callback
  consumes a facet by adding it.
\<close>

type_synonym tracker = "(jsval \<times> string) list"

text \<open>
  A converter of text nodes that consumes nothing. Its output is \<open>0\<close> for the text
  \<open>zero\<close>, an array of two strings for the text \<open>pair\<close>, the text itself otherwise; it
  declines the text \<open>none\<close>.
\<close>

definition textListener :: "tracker listener" where
  "textListener d c w =
     (case getProp d ''input'' of
        View (ViewText t) \<Rightarrow>
          (if t = ''none'' then Done d w
           else if t = ''zero'' then Done (d(''output'' \<mapsto> Num 0)) w
           else if t = ''pair'' then Done (d(''output'' \<mapsto> Arr [Str ''p1'', Str ''p2''])) w
           else Done (d(''output'' \<mapsto> Str t)) w)
      | _ \<Rightarrow> Done d w)"

text \<open>
  A converter of paragraphs in the manner of the class documentation: it consumes the
  element's name, converts the children with its own record as additional data, and
  outputs what they gave.
\<close>

definition paragraphListener :: "tracker listener" where
  "paragraphListener d c w =
     ConvertChildren (getProp d ''input'') c d ((getProp d ''input'', ''name'') # w)
       (\<lambda>children w'. Done (d(''output'' \<mapsto> Arr children)) w')"

text \<open>A callback that looks and declines.\<close>

definition declineListener :: "tracker listener" where
  "declineListener d c w = Done d w"

definition exampleDispatcher :: "tracker dispatcher" where
  "exampleDispatcher =
     \<lparr> cleanupListeners = [],
       listeners = (\<lambda>name.
         if name = ''text'' then [textListener]
         else if name = ''element:p'' then [declineListener, paragraphListener]
         else if name = ''element:br'' then [declineListener]
         else []),
       createFrom = (\<lambda>v w. (Ref 0, w)) \<rparr>"

section \<open>InsertOperation\<close>

subsection \<open>Positions, node objects and the store\<close>

text \<open>
  A position names a root of the document and a path below it; a range is the span
  between two positions.
\<close>

record position =
  root :: string
  path :: "nat list"

record range =
  rangeStart :: position
  rangeEnd :: position

text \<open>
  Positions and nodes are objects: the operation holds references to them, and what a
  reference shows is what the object holds now. Every node object has an address, the
  descendants of an element as well: an element owns its children, so what an element
  object holds is its name and its children, each one an object with its own address and
  state.
\<close>

type_synonym addr = nat

datatype obj = TextObj string | ElementObj string "(addr \<times> obj) list"

text \<open>The node an object holds, and the addresses of the objects below it.\<close>

fun valueOf :: "obj \<Rightarrow> node" where
  "valueOf (TextObj t) = Text t"
| "valueOf (ElementObj name kids) = Element name (map (\<lambda>(a, k). valueOf k) kids)"

fun ids :: "obj \<Rightarrow> addr list" where
  "ids (TextObj t) = []"
| "ids (ElementObj name kids) = concat (map (\<lambda>(a, k). a # ids k) kids)"

definition kidIds :: "(addr \<times> obj) list \<Rightarrow> addr list" where
  "kidIds kids = concat (map (\<lambda>(a, k). a # ids k) kids)"

text \<open>
  The store maps the address of a position object to its value and the address of a node
  object that has no parent to its state. Addresses below the counters are the objects
  that exist; \<open>new\<close> takes the next address.
\<close>

record store =
  objCells :: "addr \<Rightarrow> obj"
  nodeNext :: addr
  posCells :: "addr \<Rightarrow> position"
  posNext :: addr

definition nodeCells :: "store \<Rightarrow> addr \<Rightarrow> node" where
  "nodeCells s a = valueOf (objCells s a)"

text \<open>The node objects that a list of nodes consists of: the nodes and all below them.\<close>

definition objectsOf :: "store \<Rightarrow> addr list \<Rightarrow> addr list" where
  "objectsOf s as = concat (map (\<lambda>a. a # ids (objCells s a)) as)"

text \<open>
  Building a node makes an object of every node in it: \<open>freshObj v k\<close> is the state of
  a new object holding \<open>v\<close>, its descendants at the addresses from \<open>k\<close> on, with the next
  free address.
\<close>

fun freshObj :: "node \<Rightarrow> addr \<Rightarrow> obj \<times> addr"
  and freshKids :: "node list \<Rightarrow> addr \<Rightarrow> (addr \<times> obj) list \<times> addr" where
  "freshObj (Text t) k = (TextObj t, k)"
| "freshObj (Element name children) k =
     (case freshKids children k of (kids, k') \<Rightarrow> (ElementObj name kids, k'))"
| "freshKids [] k = ([], k)"
| "freshKids (c # cs) k =
     (case freshObj c (Suc k) of
        (o1, k1) \<Rightarrow> (case freshKids cs k1 of (kids, k2) \<Rightarrow> ((k, o1) # kids, k2)))"

definition newNode :: "node \<Rightarrow> store \<Rightarrow> addr \<times> store" where
  "newNode v s =
     (case freshObj v (Suc (nodeNext s)) of
        (o1, k) \<Rightarrow>
          (nodeNext s, s\<lparr> objCells := (objCells s)(nodeNext s := o1), nodeNext := k \<rparr>))"

definition newPosition :: "position \<Rightarrow> store \<Rightarrow> addr \<times> store" where
  "newPosition v s =
     (posNext s, s\<lparr> posCells := (posCells s)(posNext s := v), posNext := Suc (posNext s) \<rparr>)"

text \<open>
  Modelled from the spec: \<open>Position.createFromPosition\<close> is not among the sources. It
  makes an owned copy, created by value from the supplied position: a new object with the
  same root and path.
\<close>

definition createFromPosition :: "addr \<Rightarrow> store \<Rightarrow> addr \<times> store" where
  "createFromPosition p s = newPosition (posCells s p) s"

text \<open>
  Modelled from the spec: \<open>Node.clone\<close> is not among the sources. \<open>node.clone( true )\<close>
  is a deep clone: a new node object whose descendants are clones as well, new objects
  each; without the flag the clone of an element has no children. \<open>cloneObj deep o1 k\<close>
  is the state of the clone, its descendants at the addresses from \<open>k\<close> on, with the next
  free address.
\<close>

fun cloneObj :: "bool \<Rightarrow> obj \<Rightarrow> addr \<Rightarrow> obj \<times> addr"
  and cloneKids :: "(addr \<times> obj) list \<Rightarrow> addr \<Rightarrow> (addr \<times> obj) list \<times> addr" where
  "cloneObj deep (TextObj t) k = (TextObj t, k)"
| "cloneObj deep (ElementObj name kids) k =
     (if deep then (case cloneKids kids k of (kids', k') \<Rightarrow> (ElementObj name kids', k'))
      else (ElementObj name [], k))"
| "cloneKids [] k = ([], k)"
| "cloneKids ((a, o1) # kids) k =
     (case cloneObj True o1 (Suc k) of
        (o2, k1) \<Rightarrow> (case cloneKids kids k1 of (kids', k2) \<Rightarrow> ((k, o2) # kids', k2)))"

definition clone_node :: "bool \<Rightarrow> addr \<Rightarrow> store \<Rightarrow> addr \<times> store" where
  "clone_node deep a s =
     (case cloneObj deep (objCells s a) (Suc (nodeNext s)) of
        (o1, k) \<Rightarrow>
          (nodeNext s, s\<lparr> objCells := (objCells s)(nodeNext s := o1), nodeNext := k \<rparr>))"

text \<open>\<open>[ ...nodes ].map( ( node ) => node.clone( true ) )\<close>\<close>

fun cloneAll :: "addr list \<Rightarrow> store \<Rightarrow> addr list \<times> store" where
  "cloneAll [] s = ([], s)"
| "cloneAll (a # as) s =
     (case clone_node True a s of
        (a', s1) \<Rightarrow> (case cloneAll as s1 of (as', s2) \<Rightarrow> (a' # as', s2)))"

text \<open>
  Modelled from the spec: \<open>normalizeNodes\<close> of the writer is not among the sources. It
  accepts a single node, a string, or an ordered collection of node-likes, and gives the
  canonical ordered node list: a node stays the object it is, a string becomes a new text
  node.
\<close>

datatype nodeLike = ANode addr | AString string

datatype nodeSet = Single nodeLike | Many "nodeLike list"

fun items :: "nodeSet \<Rightarrow> nodeLike list" where
  "items (Single x) = [x]"
| "items (Many xs) = xs"

fun normalizeList :: "nodeLike list \<Rightarrow> store \<Rightarrow> addr list \<times> store" where
  "normalizeList [] s = ([], s)"
| "normalizeList (ANode a # xs) s =
     (case normalizeList xs s of (as, s1) \<Rightarrow> (a # as, s1))"
| "normalizeList (AString t # xs) s =
     (case newNode (Text t) s of
        (a, s1) \<Rightarrow> (case normalizeList xs s1 of (as, s2) \<Rightarrow> (a # as, s2)))"

definition normalizeNodes :: "nodeSet \<Rightarrow> store \<Rightarrow> addr list \<times> store" where
  "normalizeNodes ns s = normalizeList (items ns) s"

text \<open>
  Modelled from the spec: \<open>NodeList.maxOffset\<close> is not among the sources. It is the
  total offset-length of the list, the sum of each node's size, where a text node counts
  its character length and an element counts as one.
\<close>

fun offsetSize :: "node \<Rightarrow> nat" where
  "offsetSize (Text t) = length t"
| "offsetSize (Element name children) = 1"

definition maxOffset :: "addr list \<Rightarrow> store \<Rightarrow> nat" where
  "maxOffset ns s = sum_list (map (\<lambda>a. offsetSize (nodeCells s a)) ns)"

subsection \<open>The operations\<close>

text \<open>
  Modelled from the spec: \<open>Operation\<close> and \<open>RemoveOperation\<close> are not among the sources.
  An operation has the document version it applies to; a removal targets a position and
  removes a span of a given width. Like the insertion, the removal keeps its own copy of
  the position it is given.
\<close>

record operation =
  baseVersion :: int

text \<open>
  A base version is a JavaScript number, a double, holding an integer. Every integer up to
  \<open>2^53\<close> in magnitude is a double; beyond, the doubles are the multiples of the spacing
  of their binade (2 up to \<open>2^54\<close>, 4 up to \<open>2^55\<close>, and so on), and the result of an
  addition is the double nearest to the exact sum, the one with the even significand when
  two are equally near. \<open>toDouble\<close> is this rounding, for the integers that the sum of
  a double and one can be.
\<close>

function spacing :: "nat \<Rightarrow> nat" where
  "spacing m = (if m < 9007199254740992 then 1 else 2 * spacing (m div 2))"
  by pat_completeness auto
termination
  by (relation "measure (\<lambda>m. m)") auto

declare spacing.simps [simp del]

definition roundNat :: "nat \<Rightarrow> nat" where
  "roundNat m =
     (let u = spacing m; q = m div u; r = m mod u
      in if 2 * r < u then q * u
         else if u < 2 * r then (q + 1) * u
         else if even q then q * u else (q + 1) * u)"

definition toDouble :: "int \<Rightarrow> int" where
  "toDouble x = (if x < 0 then - int (roundNat (nat (- x))) else int (roundNat (nat x)))"

text \<open>\<open>this.baseVersion + 1\<close>\<close>

definition plusOne :: "int \<Rightarrow> int" where
  "plusOne v = toDouble (v + 1)"

record insertOperation = operation +
  position :: addr
  nodes :: "addr list"

record removeOperation = operation +
  sourcePosition :: addr
  howMany :: nat

definition newRemoveOperation :: "addr \<Rightarrow> nat \<Rightarrow> int \<Rightarrow> store \<Rightarrow> removeOperation \<times> store" where
  "newRemoveOperation pos n v s =
     (case createFromPosition pos s of
        (p, s1) \<Rightarrow> (\<lparr> baseVersion = v, sourcePosition = p, howMany = n \<rparr>, s1))"

text \<open>\<open>constructor( position, nodes, baseVersion )\<close>\<close>

definition newInsertOperation ::
  "addr \<Rightarrow> nodeSet \<Rightarrow> int \<Rightarrow> store \<Rightarrow> insertOperation \<times> store" where
  "newInsertOperation pos ns v s =
     (case createFromPosition pos s of
        (p, s1) \<Rightarrow>
          (case normalizeNodes ns s1 of
             (nl, s2) \<Rightarrow> (\<lparr> baseVersion = v, position = p, nodes = nl \<rparr>, s2)))"

text \<open>\<open>clone()\<close>\<close>

definition clone :: "insertOperation \<Rightarrow> store \<Rightarrow> insertOperation \<times> store" where
  "clone op s =
     (case cloneAll (nodes op) s of
        (ns, s1) \<Rightarrow> newInsertOperation (position op) (Many (map ANode ns)) (baseVersion op) s1)"

text \<open>\<open>getReversed()\<close>\<close>

definition getReversed :: "insertOperation \<Rightarrow> store \<Rightarrow> removeOperation \<times> store" where
  "getReversed op s =
     newRemoveOperation (position op) (maxOffset (nodes op) s) (plusOne (baseVersion op)) s"

text \<open>
  \<open>writer.insert\<close> is not among the sources and is a parameter. It is given the
  position and the node objects and works on the live document: from the value of the
  position, what the node objects hold and the document, it gives the range it inserted
  (or the error it raised), the document after the insertion, and what the node objects
  it was given hold afterwards, since it may change them in place (text nodes merged,
  elements given children). It reaches no other object of the store.
\<close>

type_synonym document = "(string \<times> node list) list"

type_synonym writer =
  "position \<Rightarrow> node list \<Rightarrow> document \<Rightarrow> (error + range) \<times> document \<times> node list"

text \<open>
  What the writer made of an object it was given: an object it left as it was is as it
  was, an object it changed holds the new node, the children it has now being objects of
  their own.
\<close>

definition setNode :: "addr \<Rightarrow> node \<Rightarrow> store \<Rightarrow> store" where
  "setNode a v s =
     (if nodeCells s a = v then s
      else (case freshObj v (nodeNext s) of
              (o1, k) \<Rightarrow> s\<lparr> objCells := (objCells s)(a := o1), nodeNext := k \<rparr>))"

fun writeBack :: "addr list \<Rightarrow> node list \<Rightarrow> store \<Rightarrow> store" where
  "writeBack (a # as) (v # vs) s = writeBack as vs (setNode a v s)"
| "writeBack as vs s = s"

text \<open>
  \<open>_execute()\<close>. The result is the range (or the writer's error), the operation with
  its \<open>nodes\<close> replaced, the store and the document.
\<close>

definition execute ::
  "writer \<Rightarrow> insertOperation \<Rightarrow> store \<Rightarrow> document \<Rightarrow>
     (error + range) \<times> insertOperation \<times> store \<times> document" where
  "execute writer_insert op s d =
     (let originalNodes = nodes op
      in case cloneAll originalNodes s of
           (ns, s1) \<Rightarrow>
             (let op' = op\<lparr> nodes := ns \<rparr>
              in case writer_insert (posCells s1 (position op'))
                        (map (nodeCells s1) originalNodes) d of
                   (r, d', mutated) \<Rightarrow> (r, op', writeBack originalNodes mutated s1, d')))"

subsection \<open>The persisted form\<close>

datatype json =
    JNull
  | JBool bool
  | JNum int
  | JStr string
  | JArr "json list"
  | JObj "(string \<times> json) list"

text \<open>
  Reading a property: a value without it gives \<open>undefined\<close>, here \<open>None\<close>. A record
  lists each of its properties once, as \<open>JSON.stringify\<close> writes it.
\<close>

definition jsonProp :: "json \<Rightarrow> string \<Rightarrow> json option" where
  "jsonProp j name = (case j of JObj fs \<Rightarrow> map_of fs name | _ \<Rightarrow> None)"

fun truthyJSON :: "json option \<Rightarrow> bool" where
  "truthyJSON None = False"
| "truthyJSON (Some JNull) = False"
| "truthyJSON (Some (JBool b)) = b"
| "truthyJSON (Some (JNum n)) = (n \<noteq> 0)"
| "truthyJSON (Some (JStr s)) = (s \<noteq> [])"
| "truthyJSON (Some (JArr xs)) = True"
| "truthyJSON (Some (JObj fs)) = True"

text \<open>
  Modelled from the spec: the \<open>toJSON\<close> of operations, positions and nodes is not among
  the sources. The persisted form of an insert operation is a record of its base version,
  its serialized position, the ordered list of its serialized node records and its class
  name; an element's record has a name, a text node's record has none. What
  \<open>JSON.parse( JSON.stringify( op ) )\<close> gives is this value.
\<close>

fun nodeToJSON :: "node \<Rightarrow> json" where
  "nodeToJSON (Text t) = JObj [(''data'', JStr t)]"
| "nodeToJSON (Element name children) =
     JObj [(''name'', JStr name), (''children'', JArr (map nodeToJSON children))]"

definition positionToJSON :: "position \<Rightarrow> json" where
  "positionToJSON p =
     JObj [(''root'', JStr (root p)), (''path'', JArr (map (\<lambda>i. JNum (int i)) (path p)))]"

definition toJSON :: "insertOperation \<Rightarrow> store \<Rightarrow> json" where
  "toJSON op s =
     JObj [(''baseVersion'', JNum (baseVersion op)),
           (''position'', positionToJSON (posCells s (position op))),
           (''nodes'', JArr (map (\<lambda>a. nodeToJSON (nodeCells s a)) (nodes op))),
           (''className'', JStr ''engine.model.operation.InsertOperation'')]"

text \<open>
  Modelled from the spec: \<open>Text.fromJSON\<close> and \<open>Element.fromJSON\<close> are not among the
  sources. Each builds its node from the record; an element decodes the records of its
  children by their names as \<open>InsertOperation.fromJSON\<close> does.
\<close>

definition Text_fromJSON :: "json \<Rightarrow> error + node" where
  "Text_fromJSON j =
     (case jsonProp j ''data'' of
        None \<Rightarrow> Inr (Text [])
      | Some (JStr t) \<Rightarrow> Inr (Text t)
      | Some other \<Rightarrow> Inl Unmodelled)"

function Element_fromJSON :: "json \<Rightarrow> error + node"
  and Element_children :: "json list \<Rightarrow> error + node list" where
  "Element_fromJSON j =
     (case jsonProp j ''name'' of
        Some (JStr name) \<Rightarrow>
          (case jsonProp j ''children'' of
             None \<Rightarrow> Inr (Element name [])
           | Some (JArr cs) \<Rightarrow> map_sum id (Element name) (Element_children cs)
           | Some other \<Rightarrow> Inl Unmodelled)
      | other \<Rightarrow> Inl Unmodelled)"
| "Element_children [] = Inr []"
| "Element_children (child # rest) =
     (case (if child = JNull then Inl TypeError
            else if truthyJSON (jsonProp child ''name'') then Element_fromJSON child
            else Text_fromJSON child) of
        Inl e \<Rightarrow> Inl e
      | Inr n \<Rightarrow> map_sum id ((#) n) (Element_children rest))"
  by pat_completeness auto
termination
proof (relation "measure (\<lambda>x. case x of Inl j \<Rightarrow> size j | Inr cs \<Rightarrow> size_list size cs)",
    goal_cases)
  case 1
  show ?case by simp
next
  case (2 j name x cs)
  have "map_of fs k = Some v \<Longrightarrow> size v < Suc (size_list (size_prod (\<lambda>x. 0) size) fs)"
    for fs :: "(string \<times> json) list" and k v
    by (induction fs) (auto split: if_splits)
  with 2 show ?case
    by (cases j) (fastforce simp: jsonProp_def)+
next
  case 3
  then show ?case by simp
next
  case 4
  then show ?case by simp
qed

declare Element_fromJSON.simps(1) [simp del]

text \<open>
  Modelled from the spec: \<open>Position.fromJSON\<close> is not among the sources. It resolves the
  root the position names in the document and raises an error when the document has no
  such root.
\<close>

fun pathFromJSON :: "json list \<Rightarrow> (nat list) option" where
  "pathFromJSON [] = Some []"
| "pathFromJSON (JNum i # rest) =
     (if i < 0 then None
      else (case pathFromJSON rest of None \<Rightarrow> None | Some p \<Rightarrow> Some (nat i # p)))"
| "pathFromJSON (other # rest) = None"

definition Position_fromJSON :: "json \<Rightarrow> document \<Rightarrow> error + position" where
  "Position_fromJSON j document =
     (case jsonProp j ''root'' of
        Some (JStr r) \<Rightarrow>
          (if map_of document r = None then Inl (Thrown (Str ''position-fromjson-no-root''))
           else (case jsonProp j ''path'' of
                   Some (JArr is) \<Rightarrow>
                     (case pathFromJSON is of
                        None \<Rightarrow> Inl Unmodelled
                      | Some p \<Rightarrow> Inr \<lparr> root = r, path = p \<rparr>)
                 | other \<Rightarrow> Inl Unmodelled))
      | other \<Rightarrow> Inl Unmodelled)"

text \<open>
  The loop of \<open>fromJSON\<close> over \<open>json.nodes\<close>: \<open>child.name\<close> decides between
  \<open>Element.fromJSON( child )\<close> and \<open>Text.fromJSON( child )\<close>. Reading the property of
  \<open>null\<close> is a \<open>TypeError\<close>.
\<close>

fun fromJSON_children :: "json list \<Rightarrow> error + node list" where
  "fromJSON_children [] = Inr []"
| "fromJSON_children (child # rest) =
     (case (if child = JNull then Inl TypeError
            else if truthyJSON (jsonProp child ''name'') then Element_fromJSON child
            else Text_fromJSON child) of
        Inl e \<Rightarrow> Inl e
      | Inr n \<Rightarrow> map_sum id ((#) n) (fromJSON_children rest))"

fun newNodes :: "node list \<Rightarrow> store \<Rightarrow> addr list \<times> store" where
  "newNodes [] s = ([], s)"
| "newNodes (v # vs) s =
     (case newNode v s of (a, s1) \<Rightarrow> (case newNodes vs s1 of (as, s2) \<Rightarrow> (a # as, s2)))"

text \<open>
  \<open>fromJSON( json, document )\<close>. The decoded children are new node objects, the decoded
  position a new position object, and the constructor gets them with \<open>json.baseVersion\<close>.
  A \<open>json.nodes\<close> that cannot be iterated is a \<open>TypeError\<close>.
\<close>

definition fromJSON :: "json \<Rightarrow> document \<Rightarrow> store \<Rightarrow> error + insertOperation \<times> store" where
  "fromJSON j document s =
     (case jsonProp j ''nodes'' of
        Some (JArr records) \<Rightarrow>
          (case fromJSON_children records of
             Inl e \<Rightarrow> Inl e
           | Inr decoded \<Rightarrow>
               (case newNodes decoded s of
                  (children, s1) \<Rightarrow>
                    (case jsonProp j ''position'' of
                       None \<Rightarrow> Inl TypeError
                     | Some pj \<Rightarrow>
                         (case Position_fromJSON pj document of
                            Inl e \<Rightarrow> Inl e
                          | Inr pv \<Rightarrow>
                              (case newPosition pv s1 of
                                 (p, s2) \<Rightarrow>
                                   (case jsonProp j ''baseVersion'' of
                                      Some (JNum v) \<Rightarrow>
                                        Inr (newInsertOperation p (Many (map ANode children)) v s2)
                                    | other \<Rightarrow> Inl Unmodelled))))))
      | Some (JStr t) \<Rightarrow> Inl Unmodelled
      | other \<Rightarrow> Inl TypeError)"

subsection \<open>What the specification says, in its own terms\<close>

text \<open>What an operation says, whatever objects say it: where, what, and on which version.\<close>

definition contentOf :: "insertOperation \<Rightarrow> store \<Rightarrow> position \<times> node list \<times> int" where
  "contentOf op s = (posCells s (position op), map (nodeCells s) (nodes op), baseVersion op)"

text \<open>The node a node-like stands for.\<close>

fun nodeLikeValue :: "store \<Rightarrow> nodeLike \<Rightarrow> node" where
  "nodeLikeValue s (ANode a) = nodeCells s a"
| "nodeLikeValue s (AString t) = Text t"

text \<open>The node objects among the node-likes.\<close>

fun nodeObjects :: "nodeLike list \<Rightarrow> addr list" where
  "nodeObjects [] = []"
| "nodeObjects (ANode a # xs) = a # nodeObjects xs"
| "nodeObjects (AString t # xs) = nodeObjects xs"

text \<open>Every element of the subtree has a name that is not the empty string.\<close>

fun named :: "node \<Rightarrow> bool" where
  "named (Text t) = True"
| "named (Element name children) = (name \<noteq> [] \<and> list_all named children)"

subsection \<open>A store, a document and a writer to run\<close>

text \<open>
  Three node objects, the text \<open>ab\<close>, an element \<open>x\<close> and an element whose name is the
  empty string, and one position object, \<open>(root, 0)\<close>.
\<close>

definition exampleStore :: store where
  "exampleStore =
     \<lparr> objCells = (\<lambda>a. TextObj [])
         (0 := TextObj ''ab'', 1 := ElementObj ''x'' [], 2 := ElementObj [] []),
       nodeNext = 3,
       posCells = (\<lambda>a. \<lparr> root = ''root'', path = [0] \<rparr>),
       posNext = 1 \<rparr>"

definition exampleDocument :: document where
  "exampleDocument = [(''root'', [Text ''hello''])]"

text \<open>
  A writer that inserts among the children of a root and gives every element it inserts
  a filler child, so that there is a change of the inserted objects to look at.
\<close>

definition exampleWriter :: writer where
  "exampleWriter pos ns d =
     (case (map_of d (root pos), path pos) of
        (Some content, [i]) \<Rightarrow>
          (Inr \<lparr> rangeStart = pos,
                 rangeEnd = pos\<lparr> path := [i + sum_list (map offsetSize ns)] \<rparr> \<rparr>,
           map (\<lambda>(r, c). if r = root pos then (r, take i c @ ns @ drop i c) else (r, c)) d,
           map (\<lambda>n. case n of
                       Text t \<Rightarrow> Text t
                     | Element name children \<Rightarrow> Element name (children @ [Text ''filler''])) ns)
      | other \<Rightarrow> (Inl (Thrown (Str ''writer-incorrect-position'')), d, ns))"

definition exampleOperation :: insertOperation where
  "exampleOperation = \<lparr> baseVersion = 5, position = 0, nodes = [0, 1] \<rparr>"

definition emptyNameOperation :: insertOperation where
  "emptyNameOperation = \<lparr> baseVersion = 5, position = 0, nodes = [2] \<rparr>"

text \<open>
  A store with one parentless node object, a paragraph with descendants,
  \<open><p>hi<b>x</b></p>\<close>: four node objects in all, at the addresses 0 to 3.
\<close>

definition treeStore :: store where
  "treeStore =
     \<lparr> objCells = (\<lambda>a. TextObj [])
         (0 := ElementObj ''p''
                 [(1, TextObj ''hi''), (2, ElementObj ''b'' [(3, TextObj ''x'')])]),
       nodeNext = 4,
       posCells = (\<lambda>a. \<lparr> root = ''root'', path = [0] \<rparr>),
       posNext = 1 \<rparr>"

definition treeOperation :: insertOperation where
  "treeOperation = \<lparr> baseVersion = 5, position = 0, nodes = [0] \<rparr>"

section \<open>Properties of the dispatcher\<close>

lemma andThen_trace:
  "andThen m f = (r, w, tr) \<Longrightarrow> \<exists>tr1 tr2. tr = tr1 @ tr2 \<and> snd (snd m) = tr1"
  by (auto simp: andThen_def split: prod.splits sum.splits)

lemma emit_trace:
  "snd (snd (emit api ls name d c w)) =
     [Fired name (getProp d ''input'') (snd (snd (fire api (ls name) d c w)))]"
  by (simp add: emit_def split: prod.splits)

lemma andThen_return_trace:
  "snd (snd (andThen m (\<lambda>a w. (Inr (g a), w, [])))) = snd (snd m)"
  by (auto simp: andThen_def split: prod.splits sum.splits)

lemma extend_input: "getProp (extend_js ad input) ''input'' = input"
  by (simp add: extend_js_def getProp_def)

lemma eventName_cases:
  "eventName input =
     (if isViewElement input then ''element:'' @ nameOf input
      else if isViewText input then ''text'' else ''documentFragment'')"
  by (cases input rule: eventName.cases) (simp_all add: isViewElement_def isViewText_def nameOf_def)

lemma convertItemWith_trace:
  "snd (snd (convertItemWith api ls input c ad w)) =
     [Fired (eventName input) input
        (snd (snd (fire api (ls (eventName input)) (extend_js ad input) c w)))]"
  by (simp add: convertItemWith_def Let_def andThen_return_trace emit_trace extend_input
      eventName_cases)

lemma flattenStep_contribution: "flattenStep a b = a @ contribution b"
  by (cases b) (simp_all add: flattenStep_def contribution_def concat_js_def)

lemma foldl_flattenStep: "foldl flattenStep acc outs = acc @ concat (map contribution outs)"
  by (induction outs arbitrary: acc) (simp_all add: flattenStep_contribution)

lemma convertChildrenWith_contribution:
  "convertChildrenWith ci input c ad w =
     (case getChildren input of
        Inl e \<Rightarrow> (Inl e, w, [])
      | Inr cs \<Rightarrow>
          (case mapItems ci cs c ad w of
             (r, w', tr) \<Rightarrow> (map_sum id (\<lambda>outs. concat (map contribution outs)) r, w', tr)))"
  by (auto simp: convertChildrenWith_def andThen_def foldl_flattenStep
      split: sum.splits prod.splits)

text \<open>
  C10. \<open>_convertChildren\<close> keeps a child's result by its truthiness, not by a test for
  null: the array it returns is the concatenation of what each result contributes, and a
  falsy result (null, undefined, 0, the empty string, false, NaN) contributes nothing. An
  array, which is always truthy, contributes its elements: it is flattened by one level and
  no deeper, and never appears as an element itself.
\<close>

theorem convertChildren_filters_by_truthiness:
  "convertChildren n D input c ad w =
     (case getChildren input of
        Inl e \<Rightarrow> (Inl e, w, [])
      | Inr cs \<Rightarrow>
          (case mapItems (convertItem n D) cs c ad w of
             (r, w', tr) \<Rightarrow> (map_sum id (\<lambda>outs. concat (map contribution outs)) r, w', tr)))
   \<and> flattenStep a Null = a \<and> flattenStep a Undefined = a \<and> flattenStep a (Num 0) = a
   \<and> flattenStep a (Str []) = a \<and> flattenStep a (Bool False) = a \<and> flattenStep a NaN = a
   \<and> contribution Null = [] \<and> contribution Undefined = [] \<and> contribution (Num 0) = []
   \<and> contribution (Str []) = [] \<and> contribution (Bool False) = [] \<and> contribution NaN = []
   \<and> truthy (Arr xs) \<and> flattenStep a (Arr xs) = a @ xs \<and> contribution (Arr xs) = xs
   \<and> flattenStep a (Arr [Arr ys, v]) = a @ [Arr ys, v]"
  by (simp add: convertChildren_def convertChildrenWith_contribution flattenStep_def
      contribution_def concat_js_def)

lemma getChildren_element: "getChildren (View (ViewElement name cs)) = Inr (map View cs)"
  by (simp add: getChildren_def)

lemma getChildren_fragment: "getChildren (View (ViewDocumentFragment cs)) = Inr (map View cs)"
  by (simp add: getChildren_def)

lemma convertChildrenWith_Nil:
  "getChildren input = Inr [] \<Longrightarrow> convertChildrenWith ci input c ad w = (Inr [], w, [])"
  by (simp add: convertChildrenWith_def andThen_def)

lemma convertChildrenWith_Cons:
  "getChildren input = Inr (x # xs) \<Longrightarrow> getChildren rest = Inr xs \<Longrightarrow>
   convertChildrenWith ci input c ad w =
     andThen (ci x c ad w) (\<lambda>v w'.
       andThen (convertChildrenWith ci rest c ad w') (\<lambda>vs w''. (Inr (contribution v @ vs), w'', [])))"
  by (auto simp: convertChildrenWith_contribution andThen_def split: sum.splits prod.splits)

lemma extend_js_apply:
  "extend_js ad input p =
     (if p = ''output'' then Some Null else if p = ''input'' then Some input else ad p)"
  by (simp add: extend_js_def)

lemma convertItem_Suc:
  "convertItem (Suc m) D v c ad w =
     andThen (emit (conversionApiOf m D) (listeners D) (eventName v) (extend_js ad v) c w)
       (\<lambda>d' w'. (Inr (getProp d' ''output''), w', []))"
  by (simp add: convertItemWith_def conversionApiOf_def convertChildren_def eventName_cases Let_def)

text \<open>
  What \<open>convertChildren\<close> computes. It converts the children of an element or a fragment
  in document order, the first child first and each next child in the world the previous
  one left, all with the same consumable and additional data. Each child's callbacks start
  from a fresh record: the additional data's properties, copied as they are (so a property
  holding a reference still refers to the same object), with \<open>input\<close> set to the child and
  \<open>output\<close> set to null, whatever a sibling wrote. The result is the concatenation, in
  that order, of what each child's result contributes: nothing for null or undefined, the
  elements of an array, a model node itself. Children producing \<open>[A, null, B]\<close> with model
  nodes \<open>A\<close> and \<open>B\<close> yield \<open>[A, B]\<close>. A text node is no parent: it has no
  \<open>getChildren\<close>.
\<close>

theorem convertChildren_in_document_order:
  "convertChildren n D (View (ViewElement name [])) c ad w = (Inr [], w, [])
   \<and> convertChildren n D (View (ViewElement name (x # xs))) c ad w =
       andThen (convertItem n D (View x) c ad w) (\<lambda>v w'.
         andThen (convertChildren n D (View (ViewElement name xs)) c ad w')
           (\<lambda>vs w''. (Inr (contribution v @ vs), w'', [])))
   \<and> convertChildren n D (View (ViewDocumentFragment [])) c ad w = (Inr [], w, [])
   \<and> convertChildren n D (View (ViewDocumentFragment (x # xs))) c ad w =
       andThen (convertItem n D (View x) c ad w) (\<lambda>v w'.
         andThen (convertChildren n D (View (ViewDocumentFragment xs)) c ad w')
           (\<lambda>vs w''. (Inr (contribution v @ vs), w'', [])))
   \<and> convertChildren n D (View (ViewText t)) c ad w = (Inl TypeError, w, [])
   \<and> convertItem (Suc m) D child c ad w =
       andThen (emit (conversionApiOf m D) (listeners D) (eventName child) (extend_js ad child) c w)
         (\<lambda>d' w'. (Inr (getProp d' ''output''), w', []))
   \<and> extend_js ad child p =
       (if p = ''output'' then Some Null else if p = ''input'' then Some child else ad p)
   \<and> contribution Null = [] \<and> contribution Undefined = []
   \<and> contribution (Bool False) = [] \<and> contribution (Num 0) = [] \<and> contribution NaN = []
   \<and> contribution (Str []) = []
   \<and> contribution (Arr ys) = ys
   \<and> contribution (Model a) = [Model a]
   \<and> contribution (Model a) @ contribution Null @ contribution (Model b) = [Model a, Model b]"
proof -
  have 1: "convertChildren n D (View (ViewElement name [])) c ad w = (Inr [], w, [])"
    by (simp add: convertChildren_def convertChildrenWith_Nil getChildren_element)
  have 2: "convertChildren n D (View (ViewElement name (x # xs))) c ad w =
       andThen (convertItem n D (View x) c ad w) (\<lambda>v w'.
         andThen (convertChildren n D (View (ViewElement name xs)) c ad w')
           (\<lambda>vs w''. (Inr (contribution v @ vs), w'', [])))"
    unfolding convertChildren_def
    by (rule convertChildrenWith_Cons) (simp_all add: getChildren_element)
  have 3: "convertChildren n D (View (ViewDocumentFragment [])) c ad w = (Inr [], w, [])"
    by (simp add: convertChildren_def convertChildrenWith_Nil getChildren_fragment)
  have 4: "convertChildren n D (View (ViewDocumentFragment (x # xs))) c ad w =
       andThen (convertItem n D (View x) c ad w) (\<lambda>v w'.
         andThen (convertChildren n D (View (ViewDocumentFragment xs)) c ad w')
           (\<lambda>vs w''. (Inr (contribution v @ vs), w'', [])))"
    unfolding convertChildren_def
    by (rule convertChildrenWith_Cons) (simp_all add: getChildren_fragment)
  have 5: "contribution Null = [] \<and> contribution Undefined = []
   \<and> contribution (Bool False) = [] \<and> contribution (Num 0) = [] \<and> contribution NaN = []
   \<and> contribution (Str []) = []
   \<and> contribution (Arr ys) = ys
   \<and> contribution (Model a) = [Model a]
   \<and> contribution (Model a) @ contribution Null @ contribution (Model b) = [Model a, Model b]"
    by (simp add: contribution_def)
  have 6: "convertChildren n D (View (ViewText t)) c ad w = (Inl TypeError, w, [])"
    by (simp add: convertChildren_def convertChildrenWith_def getChildren_def)
  from 1 2 3 4 5 6 convertItem_Suc [of m D child c ad w] extend_js_apply [of ad child p]
  show ?thesis by blast
qed

lemmas ex_defs = convertChildren_def convertChildrenWith_def getChildren_def convertItemWith_def
     exampleDispatcher_def andThen_def emit_def textListener_def isViewElement_def isViewText_def
     extend_js_def getProp_def flattenStep_def concat_js_def declineListener_def paragraphListener_def
     nameOf_def

text \<open>
  C4. The parts of the claim about order and fresh records hold, as shown above, and so
  does the omission of null results. But the reduce callback tests the truthiness of a
  result where its comment says that it removes nulls: a result that is falsy without
  being null or absent is removed as well. The text converter of the example answers
  \<open>0\<close>, nothing and \<open>''b''\<close> for the three children; the results with the null ones
  omitted are \<open>[0, ''b'']\<close>, and \<open>convertChildren\<close> returns \<open>[''b'']\<close>.
\<close>

theorem convertChildren_omits_zero:
  "fst (convertItem 1 exampleDispatcher (View (ViewText ''zero'')) (Ref 0) Map.empty []) = Inr (Num 0)
   \<and> fst (convertItem 1 exampleDispatcher (View (ViewText ''none'')) (Ref 0) Map.empty []) = Inr Null
   \<and> fst (convertItem 1 exampleDispatcher (View (ViewText ''b'')) (Ref 0) Map.empty []) = Inr (Str ''b'')
   \<and> withoutNulls [Num 0, Null, Str ''b''] = [Num 0, Str ''b'']
   \<and> fst (convertChildren 1 exampleDispatcher
        (View (ViewElement ''p'' [ViewText ''zero'', ViewText ''none'', ViewText ''b'']))
        (Ref 0) Map.empty []) = Inr [Str ''b'']
   \<and> fst (convertChildren 1 exampleDispatcher
        (View (ViewElement ''p'' [ViewText ''zero'', ViewText ''none'', ViewText ''b'']))
        (Ref 0) Map.empty []) \<noteq> Inr (withoutNulls [Num 0, Null, Str ''b''])"
  by (simp add: ex_defs withoutNulls_def)

lemma convertItem_trace:
  "\<exists>nested. snd (snd (convertItem (Suc n) D input c ad w)) =
     [Fired (eventName input) input nested]"
  by (simp add: convertItemWith_trace)

text \<open>
  C6. In every call of \<open>convert\<close> the first thing that happens is the \<open>viewCleanup\<close>
  notification, carrying the view item as it was passed, and no conversion notification
  is fired while its listeners run. Only then is the consumable tracker created, from the
  whole item as the cleanup left it, and only after that comes the notification of the item
  itself, inside which all notifications of nested conversions fall. The result is that of
  \<open>_convertItem\<close> on the item with this tracker.
\<close>

theorem convert_cleanup_first:
  "(case fireCleanup (cleanupListeners D) viewItem w of
      (Inl e, w1) \<Rightarrow>
        convert (Suc n) D viewItem additionalData w =
          (Inl e, w1, [Fired ''viewCleanup'' viewItem []])
    | (Inr item, w1) \<Rightarrow>
        (\<exists>nested.
           snd (snd (convert (Suc n) D viewItem additionalData w)) =
             [Fired ''viewCleanup'' viewItem [], ConsumableCreated item,
              Fired (eventName item) item nested])
        \<and> fst (convert (Suc n) D viewItem additionalData w) =
            fst (convertItem (Suc n) D item (fst (createFrom D item w1)) additionalData
                   (snd (createFrom D item w1))))"
proof (cases "fireCleanup (cleanupListeners D) viewItem w")
  case (Pair r w1)
  show ?thesis
  proof (cases r)
    case (Inl e)
    with Pair show ?thesis by (simp add: convert_def)
  next
    case (Inr item)
    obtain consumable w2 where cf: "createFrom D item w1 = (consumable, w2)"
      by (cases "createFrom D item w1")
    obtain r' w3 tr where ci:
      "convertItem (Suc n) D item consumable additionalData w2 = (r', w3, tr)"
      by (cases "convertItem (Suc n) D item consumable additionalData w2")
    from ci convertItem_trace [of n D item consumable additionalData w2]
    obtain nested where "tr = [Fired (eventName item) item nested]"
      by auto
    with Pair Inr cf ci show ?thesis
      by (simp add: convert_def)
  qed
qed

lemma fire_keeps_output:
  assumes "\<forall>l\<in>set ls. \<forall>d w0. \<exists>d' w' tr.
             runCallback api (l d c w0) = (Inr d', w', tr) \<and> d' ''output'' = d ''output''"
  shows "\<exists>d' w' tr. fire api ls d c w = (Inr d', w', tr) \<and> d' ''output'' = d ''output''"
  using assms
proof (induction ls arbitrary: d w)
  case Nil
  then show ?case by simp
next
  case (Cons l ls)
  from Cons.prems obtain d1 w1 tr1 where
    l: "runCallback api (l d c w) = (Inr d1, w1, tr1)" and o1: "d1 ''output'' = d ''output''"
    by (metis list.set_intros(1))
  from Cons.prems have "\<forall>l\<in>set ls. \<forall>d w0. \<exists>d' w' tr.
      runCallback api (l d c w0) = (Inr d', w', tr) \<and> d' ''output'' = d ''output''"
    by simp
  from Cons.IH [OF this, of d1 w1] obtain d2 w2 tr2 where
    r: "fire api ls d1 c w1 = (Inr d2, w2, tr2)" and o2: "d2 ''output'' = d1 ''output''"
    by blast
  from l r o1 o2 show ?case
    by (simp add: andThen_def)
qed

lemma convertItem_by_fire:
  "convertItem (Suc n) D input c ad w =
     (case fire (conversionApiOf n D) (listeners D (eventName input)) (extend_js ad input) c w of
        (r, w', tr) \<Rightarrow>
          (map_sum id (\<lambda>d. getProp d ''output'') r, w', [Fired (eventName input) input tr]))"
  unfolding convertItem_Suc
  by (auto simp: emit_def andThen_def extend_input split: prod.splits sum.splits)

text \<open>
  C1. Every call of \<open>_convertItem\<close> fires exactly one notification, and the item's
  kind selects it: \<open>element:<name>\<close> with the element's own name for a view element,
  \<open>text\<close> for a view text node, \<open>documentFragment\<close> for anything else. The callbacks that
  run are those registered for that name, on the fresh record of the call, and the call
  returns what they leave; the events of the call are this one notification, and whatever
  else is fired during the call is fired inside it, by nested calls that its callbacks
  make. The three names are different, so the cases exclude each other.
\<close>

theorem convertItem_fires_exactly_one:
  "convertItem (Suc n) D input consumable additionalData w =
     (case fire (conversionApiOf n D) (listeners D (eventName input))
             (extend_js additionalData input) consumable w of
        (r, w', tr) \<Rightarrow>
          (map_sum id (\<lambda>d. getProp d ''output'') r, w', [Fired (eventName input) input tr]))
   \<and> (\<exists>nested. snd (snd (convertItem (Suc n) D input consumable additionalData w)) =
         [Fired (eventName input) input nested])
   \<and> eventName (View (ViewElement name cs)) = ''element:'' @ name
   \<and> eventName (View (ViewText t)) = ''text''
   \<and> eventName (View (ViewDocumentFragment cs)) = ''documentFragment''
   \<and> eventName Null = ''documentFragment''
   \<and> eventName (Model m) = ''documentFragment''
   \<and> eventName (View (ViewElement name cs)) \<noteq> ''text''
   \<and> eventName (View (ViewElement name cs)) \<noteq> ''documentFragment''
   \<and> eventName (View (ViewText t)) \<noteq> eventName (View (ViewDocumentFragment cs))"
proof -
  note convertItem_by_fire [of n D input consumable additionalData w]
  moreover note convertItem_trace [of n D input consumable additionalData w]
  ultimately show ?thesis
    by (simp del: convertItem.simps)
qed

text \<open>
  C7, as amended. \<open>_convertItem\<close> returns the value of the record's \<open>output\<close> property
  as the callbacks of the selected notification left it, and fails only if one of them
  fails. When no callback is registered for the notification, the result is null, the world
  is untouched and nothing is raised. More generally, when every registered callback
  returns and leaves \<open>output\<close> as it found it, the result is null.
\<close>

theorem convertItem_returns_output:
  "convertItem (Suc n) D input c ad w =
     (case fire (conversionApiOf n D) (listeners D (eventName input)) (extend_js ad input) c w of
        (r, w', tr) \<Rightarrow>
          (map_sum id (\<lambda>d. getProp d ''output'') r, w', [Fired (eventName input) input tr]))
   \<and> (listeners D (eventName input) = [] \<longrightarrow>
        convertItem (Suc n) D input c ad w = (Inr Null, w, [Fired (eventName input) input []]))
   \<and> ((\<forall>l\<in>set (listeners D (eventName input)). \<forall>d w0. \<exists>d' w' tr.
          runCallback (conversionApiOf n D) (l d c w0) = (Inr d', w', tr) \<and>
          d' ''output'' = d ''output'') \<longrightarrow>
        fst (convertItem (Suc n) D input c ad w) = Inr Null)"
proof (intro conjI impI)
  show "convertItem (Suc n) D input c ad w =
     (case fire (conversionApiOf n D) (listeners D (eventName input)) (extend_js ad input) c w of
        (r, w', tr) \<Rightarrow>
          (map_sum id (\<lambda>d. getProp d ''output'') r, w', [Fired (eventName input) input tr]))"
    by (rule convertItem_by_fire)
next
  assume "listeners D (eventName input) = []"
  then show "convertItem (Suc n) D input c ad w = (Inr Null, w, [Fired (eventName input) input []])"
    by (subst convertItem_by_fire) (simp add: extend_js_def getProp_def)
next
  assume "\<forall>l\<in>set (listeners D (eventName input)). \<forall>d w0. \<exists>d' w' tr.
          runCallback (conversionApiOf n D) (l d c w0) = (Inr d', w', tr) \<and>
          d' ''output'' = d ''output''"
  from fire_keeps_output [OF this, of "extend_js ad input" w]
  obtain d' w' tr where
    "fire (conversionApiOf n D) (listeners D (eventName input)) (extend_js ad input) c w =
       (Inr d', w', tr)" and "d' ''output'' = extend_js ad input ''output''"
    by blast
  then show "fst (convertItem (Suc n) D input c ad w) = Inr Null"
    by (subst convertItem_by_fire) (simp add: extend_js_def getProp_def)
qed

text \<open>
  The amended C7 at the example dispatcher: a fragment has no callback at all, a
  \<open>br\<close> element has one that declines.
\<close>

theorem convertItem_returns_output_witness:
  "listeners exampleDispatcher (eventName (View (ViewDocumentFragment []))) = []
   \<and> convertItem (Suc 0) exampleDispatcher (View (ViewDocumentFragment [])) (Ref 0) Map.empty [] =
       (Inr Null, [],
        [Fired (eventName (View (ViewDocumentFragment []))) (View (ViewDocumentFragment [])) []])
   \<and> listeners exampleDispatcher (eventName (View (ViewElement ''br'' []))) = [declineListener]
   \<and> (\<forall>d w0. runCallback (conversionApiOf 0 exampleDispatcher) (declineListener d (Ref 0) w0) =
        (Inr d, w0, []))
   \<and> fst (convertItem (Suc 0) exampleDispatcher (View (ViewElement ''br'' [])) (Ref 0)
        Map.empty []) = Inr Null"
proof -
  have l0: "listeners exampleDispatcher (eventName (View (ViewDocumentFragment []))) = []"
    by (simp add: exampleDispatcher_def)
  have l1: "listeners exampleDispatcher (eventName (View (ViewElement ''br'' []))) =
      [declineListener]"
    by (simp add: exampleDispatcher_def)
  have r: "\<forall>d w0. runCallback (conversionApiOf 0 exampleDispatcher)
      (declineListener d (Ref 0) w0) = (Inr d, w0, [])"
    by (simp add: declineListener_def)
  have h: "\<forall>l\<in>set (listeners exampleDispatcher (eventName (View (ViewElement ''br'' [])))).
      \<forall>d w0. \<exists>d' w' tr.
        runCallback (conversionApiOf 0 exampleDispatcher) (l d (Ref 0) w0) = (Inr d', w', tr) \<and>
        d' ''output'' = d ''output''"
    unfolding l1 using r by simp
  from l0 convertItem_returns_output
    [of 0 exampleDispatcher "View (ViewDocumentFragment [])" "Ref 0" Map.empty "[]"]
  have a: "convertItem (Suc 0) exampleDispatcher (View (ViewDocumentFragment [])) (Ref 0)
      Map.empty [] =
       (Inr Null, [],
        [Fired (eventName (View (ViewDocumentFragment []))) (View (ViewDocumentFragment [])) []])"
    by blast
  from h convertItem_returns_output
    [of 0 exampleDispatcher "View (ViewElement ''br'' [])" "Ref 0" Map.empty "[]"]
  have b: "fst (convertItem (Suc 0) exampleDispatcher (View (ViewElement ''br'' [])) (Ref 0)
        Map.empty []) = Inr Null"
    by blast
  from l0 a l1 r b show ?thesis by blast
qed

text \<open>
  C7 as stated fails: the dispatcher never asks the tracker whether the item was
  consumed. The text converter of the example consumes nothing (the tracker, empty before
  the call, is empty after it) and its output is returned all the same.
\<close>

theorem convertItem_output_without_consuming:
  "convertItem 1 exampleDispatcher (View (ViewText ''b'')) (Ref 0) Map.empty [] =
     (Inr (Str ''b''), [], [Fired ''text'' (View (ViewText ''b'')) []])
   \<and> Str ''b'' \<noteq> Null"
  by (simp add: ex_defs)

section \<open>Properties of the insert operation\<close>

lemma kidIds_simps [simp]:
  "kidIds [] = []" "kidIds ((a, k) # kids) = a # ids k @ kidIds kids"
  by (simp_all add: kidIds_def)

lemma ids_Element [simp]: "ids (ElementObj name kids) = kidIds kids"
  by (simp add: kidIds_def)

declare ids.simps(2) [simp del]

lemma freshObj_facts:
  "freshObj v k = (o1, k') \<Longrightarrow>
     valueOf o1 = v \<and> k \<le> k' \<and> distinct (ids o1) \<and> (\<forall>b\<in>set (ids o1). k \<le> b \<and> b < k')"
  "freshKids vs k = (kids, k') \<Longrightarrow>
     map (\<lambda>(a, c). valueOf c) kids = vs \<and> k \<le> k' \<and> distinct (kidIds kids) \<and>
     (\<forall>b\<in>set (kidIds kids). k \<le> b \<and> b < k')"
proof (induction v k and vs k arbitrary: o1 k' and kids k' rule: freshObj_freshKids.induct)
  case (1 t k)
  then show ?case by auto
next
  case (2 name children k)
  obtain kids k1 where f: "freshKids children k = (kids, k1)"
    by (cases "freshKids children k")
  from "2.IH" [OF f] "2.prems" f show ?case
    by auto
next
  case (3 k)
  then show ?case by auto
next
  case (4 c cs k)
  obtain o2 k1 where f1: "freshObj c (Suc k) = (o2, k1)"
    by (cases "freshObj c (Suc k)")
  obtain kids2 k2 where f2: "freshKids cs k1 = (kids2, k2)"
    by (cases "freshKids cs k1")
  from "4.prems" f1 f2 have eq: "kids = (k, o2) # kids2" "k' = k2"
    by auto
  from "4.IH"(1) [OF f1] "4.IH"(2) [OF f1 [symmetric] f2] show ?case
    unfolding eq by fastforce
qed

lemma cloneObj_facts:
  "cloneObj deep o1 k = (o2, k') \<Longrightarrow> deep \<Longrightarrow>
     valueOf o2 = valueOf o1 \<and> k \<le> k' \<and> distinct (ids o2) \<and>
     (\<forall>b\<in>set (ids o2). k \<le> b \<and> b < k')"
  "cloneKids kids k = (kids', k') \<Longrightarrow>
     map (\<lambda>(a, c). valueOf c) kids' = map (\<lambda>(a, c). valueOf c) kids \<and> k \<le> k' \<and>
     distinct (kidIds kids') \<and> (\<forall>b\<in>set (kidIds kids'). k \<le> b \<and> b < k')"
proof (induction deep o1 k and kids k arbitrary: o2 k' and kids' k'
    rule: cloneObj_cloneKids.induct)
  case (1 deep t k)
  then show ?case by auto
next
  case (2 deep name kids k)
  obtain kids1 k1 where f: "cloneKids kids k = (kids1, k1)"
    by (cases "cloneKids kids k")
  from "2.IH" [OF "2.prems"(2) f] "2.prems" f show ?case
    by auto
next
  case (3 k)
  then show ?case by auto
next
  case (4 a o1 kids k)
  obtain o2 k1 where f1: "cloneObj True o1 (Suc k) = (o2, k1)"
    by (cases "cloneObj True o1 (Suc k)")
  obtain kids2 k2 where f2: "cloneKids kids k1 = (kids2, k2)"
    by (cases "cloneKids kids k1")
  from "4.prems" f1 f2 have eq: "kids' = (k, o2) # kids2" "k' = k2"
    by auto
  from "4.IH"(1) [OF f1] "4.IH"(2) [OF f1 [symmetric] f2] show ?case
    unfolding eq by fastforce
qed

lemma nodeCells_same: "objCells s' a = objCells s a \<Longrightarrow> nodeCells s' a = nodeCells s a"
  by (simp add: nodeCells_def)

lemma objectsOf_simps [simp]:
  "objectsOf s [] = []" "objectsOf s (a # as) = a # ids (objCells s a) @ objectsOf s as"
  by (simp_all add: objectsOf_def)

lemma objectsOf_nodes: "a \<in> set as \<Longrightarrow> a \<in> set (objectsOf s as)"
  by (induction as) auto

lemma objectsOf_same:
  "\<forall>a\<in>set as. objCells s' a = objCells s a \<Longrightarrow> objectsOf s' as = objectsOf s as"
  by (induction as) auto

lemma objectsOf_distinct: "distinct (objectsOf s as) \<Longrightarrow> distinct as"
  by (induction as) (auto dest: objectsOf_nodes)

lemma newNode_facts:
  assumes "newNode v s = (a, s')"
  shows "a = nodeNext s" and "nodeNext s < nodeNext s'" and "nodeCells s' a = v"
    and "distinct (ids (objCells s' a))"
    and "\<forall>b\<in>set (ids (objCells s' a)). nodeNext s < b \<and> b < nodeNext s'"
    and "posCells s' = posCells s" and "posNext s' = posNext s"
    and "\<forall>b. b \<noteq> nodeNext s \<longrightarrow> objCells s' b = objCells s b"
proof -
  obtain o1 k where f: "freshObj v (Suc (nodeNext s)) = (o1, k)"
    by (cases "freshObj v (Suc (nodeNext s))")
  from assms f have eq: "a = nodeNext s"
    "s' = s\<lparr> objCells := (objCells s)(nodeNext s := o1), nodeNext := k \<rparr>"
    by (auto simp: newNode_def)
  note ff = freshObj_facts(1) [OF f]
  from eq show "a = nodeNext s" by simp
  from eq ff show "nodeNext s < nodeNext s'" by simp
  from eq ff show "nodeCells s' a = v" by (simp add: nodeCells_def)
  from eq ff show "distinct (ids (objCells s' a))" by simp
  from eq ff show "\<forall>b\<in>set (ids (objCells s' a)). nodeNext s < b \<and> b < nodeNext s'"
    by auto
  from eq show "posCells s' = posCells s" "posNext s' = posNext s"
    "\<forall>b. b \<noteq> nodeNext s \<longrightarrow> objCells s' b = objCells s b"
    by simp_all
qed

lemma clone_node_facts:
  assumes "clone_node True a0 s = (a, s')"
  shows "a = nodeNext s" and "nodeNext s < nodeNext s'" and "nodeCells s' a = nodeCells s a0"
    and "distinct (ids (objCells s' a))"
    and "\<forall>b\<in>set (ids (objCells s' a)). nodeNext s < b \<and> b < nodeNext s'"
    and "posCells s' = posCells s" and "posNext s' = posNext s"
    and "\<forall>b. b \<noteq> nodeNext s \<longrightarrow> objCells s' b = objCells s b"
proof -
  obtain o1 k where f: "cloneObj True (objCells s a0) (Suc (nodeNext s)) = (o1, k)"
    by (cases "cloneObj True (objCells s a0) (Suc (nodeNext s))")
  from assms f have eq: "a = nodeNext s"
    "s' = s\<lparr> objCells := (objCells s)(nodeNext s := o1), nodeNext := k \<rparr>"
    by (auto simp: clone_node_def)
  note ff = cloneObj_facts(1) [OF f TrueI]
  from eq show "a = nodeNext s" by simp
  from eq ff show "nodeNext s < nodeNext s'" by simp
  from eq ff show "nodeCells s' a = nodeCells s a0" by (simp add: nodeCells_def)
  from eq ff show "distinct (ids (objCells s' a))" by simp
  from eq ff show "\<forall>b\<in>set (ids (objCells s' a)). nodeNext s < b \<and> b < nodeNext s'"
    by auto
  from eq show "posCells s' = posCells s" "posNext s' = posNext s"
    "\<forall>b. b \<noteq> nodeNext s \<longrightarrow> objCells s' b = objCells s b"
    by simp_all
qed

lemma cloneAll_frame:
  "cloneAll as s = (cl, s') \<Longrightarrow>
     length cl = length as \<and> distinct (objectsOf s' cl) \<and>
     (\<forall>b\<in>set (objectsOf s' cl). nodeNext s \<le> b \<and> b < nodeNext s') \<and>
     nodeNext s \<le> nodeNext s' \<and>
     posCells s' = posCells s \<and> posNext s' = posNext s \<and>
     (\<forall>a<nodeNext s. objCells s' a = objCells s a)"
proof (induction as arbitrary: s cl s')
  case Nil
  then show ?case by simp
next
  case (Cons a as)
  obtain a' s1 where c: "clone_node True a s = (a', s1)"
    by (cases "clone_node True a s")
  obtain as' s2 where r: "cloneAll as s1 = (as', s2)"
    by (cases "cloneAll as s1")
  note cf = clone_node_facts [OF c]
  note ih = Cons.IH [OF r]
  from Cons.prems c r have eq: "cl = a' # as'" "s' = s2"
    by auto
  from ih cf have top: "objCells s2 a' = objCells s1 a'"
    by simp
  have 1: "length cl = length (a # as)"
    using ih eq by simp
  have 2: "\<forall>b\<in>set (objectsOf s2 cl). nodeNext s \<le> b \<and> b < nodeNext s2"
    using ih cf top unfolding eq by fastforce
  have "a' \<notin> set (ids (objCells s1 a'))"
    using cf by auto
  moreover have "\<forall>b\<in>set (objectsOf s2 as'). nodeNext s1 \<le> b"
    using ih by simp
  then have "\<forall>b\<in>set (objectsOf s2 as'). b \<noteq> a' \<and> b \<notin> set (ids (objCells s1 a'))"
    using cf by fastforce
  ultimately have 3: "distinct (objectsOf s2 cl)"
    using ih cf top unfolding eq by auto
  have 4: "nodeNext s \<le> nodeNext s2" "posCells s2 = posCells s" "posNext s2 = posNext s"
    "\<forall>b<nodeNext s. objCells s2 b = objCells s b"
    using ih cf by auto
  from 1 2 3 4 show ?case
    unfolding eq by simp
qed

lemma cloneAll_contents:
  "cloneAll as s = (cl, s') \<Longrightarrow> \<forall>a\<in>set as. a < nodeNext s \<Longrightarrow>
     map (nodeCells s') cl = map (nodeCells s) as"
proof (induction as arbitrary: s cl s')
  case Nil
  then show ?case by simp
next
  case (Cons a as)
  obtain a' s1 where c: "clone_node True a s = (a', s1)"
    by (cases "clone_node True a s")
  obtain as' s2 where r: "cloneAll as s1 = (as', s2)"
    by (cases "cloneAll as s1")
  note cf = clone_node_facts [OF c]
  from Cons.prems cf have wf1: "\<forall>b\<in>set as. b < nodeNext s1"
    by auto
  from Cons.IH [OF r wf1] have ih: "map (nodeCells s2) as' = map (nodeCells s1) as" .
  from cloneAll_frame [OF r] cf have "nodeCells s2 a' = nodeCells s1 a'"
    by (simp add: nodeCells_def)
  moreover have "map (nodeCells s1) as = map (nodeCells s) as"
  proof -
    from Cons.prems(2) cf(8) have "\<forall>b\<in>set as. objCells s1 b = objCells s b"
      by fastforce
    then show ?thesis by (simp add: nodeCells_def)
  qed
  moreover from Cons.prems(1) c r have "cl = a' # as'" "s' = s2"
    by auto
  ultimately show ?case
    using ih cf by simp
qed

lemma setNode_facts:
  "posCells (setNode a v s) = posCells s" "posNext (setNode a v s) = posNext s"
  "nodeNext s \<le> nodeNext (setNode a v s)" "nodeCells (setNode a v s) a = v"
  "b \<noteq> a \<Longrightarrow> objCells (setNode a v s) b = objCells s b"
proof -
  obtain o1 k where f: "freshObj v (nodeNext s) = (o1, k)"
    by (cases "freshObj v (nodeNext s)")
  note ff = freshObj_facts(1) [OF f]
  show "posCells (setNode a v s) = posCells s" "posNext (setNode a v s) = posNext s"
    by (simp_all add: setNode_def f)
  from ff show "nodeNext s \<le> nodeNext (setNode a v s)"
    by (simp add: setNode_def f)
  from ff show "nodeCells (setNode a v s) a = v"
    by (simp add: setNode_def f nodeCells_def)
  show "objCells (setNode a v s) b = objCells s b" if "b \<noteq> a"
    using that by (simp add: setNode_def f)
qed

lemma writeBack_other: "a \<notin> set as \<Longrightarrow> objCells (writeBack as vs s) a = objCells s a"
  by (induction as vs s rule: writeBack.induct) (auto simp: setNode_facts)

lemma writeBack_frame:
  "posCells (writeBack as vs s) = posCells s \<and> posNext (writeBack as vs s) = posNext s \<and>
   nodeNext s \<le> nodeNext (writeBack as vs s)"
proof (induction as vs s rule: writeBack.induct)
  case (1 a as v vs s)
  have "nodeNext s \<le> nodeNext (setNode a v s)"
    by (rule setNode_facts)
  moreover from 1 have "nodeNext (setNode a v s) \<le> nodeNext (writeBack as vs (setNode a v s))"
    by simp
  ultimately have "nodeNext s \<le> nodeNext (writeBack as vs (setNode a v s))"
    by (rule le_trans)
  with 1 show ?case by (simp add: setNode_facts)
qed simp_all

lemma writeBack_distinct:
  "distinct as \<Longrightarrow> length vs = length as \<Longrightarrow> map (nodeCells (writeBack as vs s)) as = vs"
proof (induction as vs s rule: writeBack.induct)
  case (1 a as v vs s)
  from "1.prems" have "nodeCells (writeBack as vs (setNode a v s)) a = nodeCells (setNode a v s) a"
    by (simp add: nodeCells_def writeBack_other)
  with 1 show ?case
    by (simp add: setNode_facts)
qed simp_all

lemma execute_facts:
  assumes wf: "\<forall>a\<in>set (nodes op). a < nodeNext s"
    and ex: "execute w op s d = (r, op', s', d')"
    and wr: "w (posCells s (position op)) (map (nodeCells s) (nodes op)) d = (r0, d0, m)"
  shows "r = r0" and "d' = d0"
    and "length (nodes op') = length (nodes op)" and "distinct (nodes op')"
    and "\<forall>a\<in>set (nodes op'). nodeNext s \<le> a \<and> a < nodeNext s'"
    and "position op' = position op" and "baseVersion op' = baseVersion op"
    and "map (nodeCells s') (nodes op') = map (nodeCells s) (nodes op)"
    and "posCells s' = posCells s" and "posNext s' = posNext s"
    and "nodeNext s \<le> nodeNext s'"
    and "\<forall>a<nodeNext s. a \<notin> set (nodes op) \<longrightarrow> objCells s' a = objCells s a"
    and "distinct (nodes op) \<Longrightarrow> length m = length (nodes op) \<Longrightarrow>
           map (nodeCells s') (nodes op) = m"
proof -
  obtain cl s1 where c: "cloneAll (nodes op) s = (cl, s1)"
    by (cases "cloneAll (nodes op) s")
  note fr = cloneAll_frame [OF c]
  note co = cloneAll_contents [OF c wf]
  from fr have dcl: "distinct cl"
    by (blast dest: objectsOf_distinct)
  from fr have bcl: "\<forall>a\<in>set cl. nodeNext s \<le> a \<and> a < nodeNext s1"
    by (blast dest: objectsOf_nodes)
  from fr wf have same: "map (nodeCells s1) (nodes op) = map (nodeCells s) (nodes op)"
    by (simp add: nodeCells_def)
  from fr have pos: "posCells s1 (position op) = posCells s (position op)"
    by simp
  from ex c same pos wr have res: "r = r0" "d' = d0" "op' = op\<lparr> nodes := cl \<rparr>"
    "s' = writeBack (nodes op) m s1"
    by (simp_all add: execute_def Let_def)
  note wb = writeBack_frame [of "nodes op" m s1]
  show "r = r0" "d' = d0" by fact+
  from res fr dcl show "length (nodes op') = length (nodes op)" "distinct (nodes op')"
    by simp_all
  from res bcl wb show "\<forall>a\<in>set (nodes op'). nodeNext s \<le> a \<and> a < nodeNext s'"
    by fastforce
  from res show "position op' = position op" "baseVersion op' = baseVersion op"
    by simp_all
  from bcl wf have disj: "\<forall>a\<in>set cl. a \<notin> set (nodes op)"
    by (meson leD)
  then have "map (nodeCells s') cl = map (nodeCells s1) cl"
    unfolding res by (simp add: writeBack_other nodeCells_def)
  with co res show "map (nodeCells s') (nodes op') = map (nodeCells s) (nodes op)"
    by simp
  from res fr wb show "posCells s' = posCells s" "posNext s' = posNext s"
    "nodeNext s \<le> nodeNext s'"
    by simp_all
  from res fr show "\<forall>a<nodeNext s. a \<notin> set (nodes op) \<longrightarrow> objCells s' a = objCells s a"
    by (simp add: writeBack_other)
  show "map (nodeCells s') (nodes op) = m"
    if "distinct (nodes op)" "length m = length (nodes op)"
    using that res by (simp add: writeBack_distinct)
qed


lemma normalizeList_nodes: "normalizeList (map ANode as) s = (as, s)"
  by (induction as) simp_all

lemma clone_facts:
  assumes wf: "\<forall>a\<in>set (nodes op). a < nodeNext s"
    and cl: "clone op s = (op2, s2)"
  shows "baseVersion op2 = baseVersion op" and "position op2 = posNext s"
    and "posCells s2 (position op2) = posCells s (position op)"
    and "\<forall>p<posNext s. posCells s2 p = posCells s p"
    and "length (nodes op2) = length (nodes op)"
    and "distinct (objectsOf s2 (nodes op2))"
    and "\<forall>b\<in>set (objectsOf s2 (nodes op2)). nodeNext s \<le> b \<and> b < nodeNext s2"
    and "map (nodeCells s2) (nodes op2) = map (nodeCells s) (nodes op)"
    and "\<forall>a<nodeNext s. objCells s2 a = objCells s a"
    and "nodeNext s \<le> nodeNext s2"
proof -
  obtain ns s1 where c: "cloneAll (nodes op) s = (ns, s1)"
    by (cases "cloneAll (nodes op) s")
  note fr = cloneAll_frame [OF c]
  note co = cloneAll_contents [OF c wf]
  from cl c have op2: "op2 = \<lparr> baseVersion = baseVersion op, position = posNext s1, nodes = ns \<rparr>"
    and s2: "s2 = s1\<lparr> posCells := (posCells s1)(posNext s1 := posCells s1 (position op)),
                      posNext := Suc (posNext s1) \<rparr>"
    by (simp_all add: clone_def newInsertOperation_def createFromPosition_def newPosition_def
        normalizeNodes_def normalizeList_nodes)
  have oo: "objectsOf s2 ns = objectsOf s1 ns" "nodeCells s2 = nodeCells s1"
    by (simp_all add: s2 objectsOf_def nodeCells_def fun_eq_iff)
  from op2 fr show "baseVersion op2 = baseVersion op" "position op2 = posNext s"
    by simp_all
  from op2 s2 fr show "posCells s2 (position op2) = posCells s (position op)"
    by simp
  from s2 fr show "\<forall>p<posNext s. posCells s2 p = posCells s p"
    by simp
  from op2 fr show "length (nodes op2) = length (nodes op)"
    by simp
  from op2 fr oo show "distinct (objectsOf s2 (nodes op2))"
    by simp
  from op2 s2 fr oo show "\<forall>b\<in>set (objectsOf s2 (nodes op2)). nodeNext s \<le> b \<and> b < nodeNext s2"
    by simp
  from op2 oo co show "map (nodeCells s2) (nodes op2) = map (nodeCells s) (nodes op)"
    by simp
  from s2 fr show "\<forall>a<nodeNext s. objCells s2 a = objCells s a"
    by simp
  from s2 fr show "nodeNext s \<le> nodeNext s2"
    by simp
qed

text \<open>
  C9. \<open>clone()\<close> of an operation whose node objects (the nodes and all their
  descendants) and position are objects of the store gives an operation with the same base
  version, a position object of its own holding an equal position, and a node list of the
  same length whose nodes hold subtrees equal to the original's, descendants included.
  Every object of the clone's nodes, the nodes themselves and each of their descendants, is
  a new object, made by the call: none is an object of the original's nodes or of their
  descendants, and no object occurs twice. Cloning leaves the original's node objects and
  position as they were, and so does executing the clone with any writer on any document.
\<close>

theorem clone_is_independent:
  assumes "\<forall>b\<in>set (objectsOf s (nodes op)). b < nodeNext s" and "position op < posNext s"
  shows "case clone op s of
           (op2, s2) \<Rightarrow>
             baseVersion op2 = baseVersion op
             \<and> position op2 \<noteq> position op
             \<and> posCells s2 (position op2) = posCells s (position op)
             \<and> length (nodes op2) = length (nodes op)
             \<and> map (nodeCells s2) (nodes op2) = map (nodeCells s) (nodes op)
             \<and> distinct (objectsOf s2 (nodes op2))
             \<and> (\<forall>b\<in>set (objectsOf s2 (nodes op2)).
                   nodeNext s \<le> b \<and> b \<notin> set (objectsOf s (nodes op)))
             \<and> map (objCells s2) (nodes op) = map (objCells s) (nodes op)
             \<and> posCells s2 (position op) = posCells s (position op)
             \<and> (\<forall>w d. case execute w op2 s2 d of
                         (r, op3, s3, d') \<Rightarrow>
                           map (objCells s3) (nodes op) = map (objCells s) (nodes op) \<and>
                           posCells s3 (position op) = posCells s (position op))"
proof -
  from assms(1) have wf: "\<forall>a\<in>set (nodes op). a < nodeNext s"
    by (blast dest: objectsOf_nodes)
  obtain op2 s2 where cl: "clone op s = (op2, s2)"
    by (cases "clone op s")
  note f = clone_facts [OF wf cl]
  from f(7) assms(1) have fresh:
    "\<forall>b\<in>set (objectsOf s2 (nodes op2)). nodeNext s \<le> b \<and> b \<notin> set (objectsOf s (nodes op))"
    by (meson leD)
  from f(9) wf have same: "map (objCells s2) (nodes op) = map (objCells s) (nodes op)"
    by simp
  from f(4) assms(2) have samepos: "posCells s2 (position op) = posCells s (position op)"
    by simp
  have exec: "map (objCells s3) (nodes op) = map (objCells s) (nodes op) \<and>
      posCells s3 (position op) = posCells s (position op)"
    if ex: "execute w op2 s2 d = (r, op3, s3, d')" for w d r op3 s3 d'
  proof -
    from f(7) have wf2: "\<forall>a\<in>set (nodes op2). a < nodeNext s2"
      by (blast dest: objectsOf_nodes)
    obtain r0 d0 m where wr:
      "w (posCells s2 (position op2)) (map (nodeCells s2) (nodes op2)) d = (r0, d0, m)"
      by (cases "w (posCells s2 (position op2)) (map (nodeCells s2) (nodes op2)) d")
    note e = execute_facts [OF wf2 ex wr]
    have "objCells s3 a = objCells s2 a" if "a \<in> set (nodes op)" for a
    proof -
      from that wf have "a < nodeNext s" by simp
      moreover from this f(7) have "a \<notin> set (nodes op2)"
        by (meson leD objectsOf_nodes)
      moreover note f(10)
      ultimately show ?thesis using e(12) by simp
    qed
    with same e(9) samepos show ?thesis
      by simp
  qed
  from f fresh same samepos assms(2) exec show ?thesis
    by (auto simp: cl split: prod.splits)
qed

lemma normalizeList_frame:
  "normalizeList xs s = (as, s') \<Longrightarrow>
     length as = length xs \<and> posCells s' = posCells s \<and> posNext s' = posNext s \<and>
     nodeNext s \<le> nodeNext s' \<and> (\<forall>a<nodeNext s. objCells s' a = objCells s a)"
proof (induction xs s arbitrary: as s' rule: normalizeList.induct)
  case (1 s)
  then show ?case by simp
next
  case (2 a xs s)
  obtain as1 s1 where r: "normalizeList xs s = (as1, s1)"
    by (cases "normalizeList xs s")
  from "2.IH" [OF r] "2.prems" r show ?case
    by auto
next
  case (3 t xs s)
  obtain a s1 where n: "newNode (Text t) s = (a, s1)"
    by (cases "newNode (Text t) s")
  obtain as1 s2 where r: "normalizeList xs s1 = (as1, s2)"
    by (cases "normalizeList xs s1")
  note nf = newNode_facts [OF n]
  from "3.IH" [OF n [symmetric] r] "3.prems" n r nf show ?case
    by auto
qed

lemma normalizeList_contents:
  "normalizeList xs s = (as, s') \<Longrightarrow> \<forall>a\<in>set (nodeObjects xs). a < nodeNext s \<Longrightarrow>
     map (nodeCells s') as = map (nodeLikeValue s) xs \<and>
     (\<forall>i<length xs. \<forall>a. xs ! i = ANode a \<longrightarrow> as ! i = a)"
proof (induction xs s arbitrary: as s' rule: normalizeList.induct)
  case (1 s)
  then show ?case by simp
next
  case (2 a xs s)
  obtain as1 s1 where r: "normalizeList xs s = (as1, s1)"
    by (cases "normalizeList xs s")
  from "2.prems" have wf: "\<forall>a\<in>set (nodeObjects xs). a < nodeNext s" and a: "a < nodeNext s"
    by simp_all
  from "2.prems" r have eq: "as = a # as1" "s' = s1"
    by auto
  from normalizeList_frame [OF r] a have "nodeCells s1 a = nodeCells s a"
    by (simp add: nodeCells_def)
  with "2.IH" [OF r wf] show ?case
    unfolding eq by (auto simp: nth_Cons split: nat.splits)
next
  case (3 t xs s)
  obtain a s1 where n: "newNode (Text t) s = (a, s1)"
    by (cases "newNode (Text t) s")
  obtain as1 s2 where r: "normalizeList xs s1 = (as1, s2)"
    by (cases "normalizeList xs s1")
  note nf = newNode_facts [OF n]
  from "3.prems" nf have wf: "\<forall>a\<in>set (nodeObjects xs). a < nodeNext s1"
    by auto
  from "3.prems" n r have eq: "as = a # as1" "s' = s2"
    by auto
  have same: "nodeLikeValue s1 x = nodeLikeValue s x" if "x \<in> set xs" for x
  proof (cases x)
    case (ANode b)
    with that have "b \<in> set (nodeObjects xs)"
      by (induction xs rule: nodeObjects.induct) auto
    with "3.prems" have "b \<noteq> nodeNext s" by auto
    with nf(8) ANode show ?thesis by (simp add: nodeCells_def)
  next
    case (AString u)
    then show ?thesis by simp
  qed
  from normalizeList_frame [OF r] nf have "nodeCells s2 a = Text t"
    by (simp add: nodeCells_def)
  with "3.IH" [OF n [symmetric] r wf] same show ?case
    unfolding eq by (auto simp: nth_Cons split: nat.splits)
qed

text \<open>
  C8. The constructor stores, for a position object and node objects of the store, the
  base version it is given, a position object of its own (not the caller's) holding the
  caller's position, so that whatever the caller's object is made to hold afterwards the
  operation's position is unchanged, and the node list that the shared normalization makes
  of the argument: one entry per node-like, in order, a node object kept as it is and a
  string turned into a new text node.
\<close>

theorem constructor_normalizes_and_copies:
  assumes "p < posNext s" and "\<forall>a\<in>set (nodeObjects (items ns)). a < nodeNext s"
  shows "case newInsertOperation p ns v s of
           (op, s') \<Rightarrow>
             baseVersion op = v
             \<and> position op \<noteq> p
             \<and> posCells s' (position op) = posCells s p
             \<and> (\<forall>q. posCells (s'\<lparr> posCells := (posCells s')(p := q) \<rparr>) (position op) =
                      posCells s p)
             \<and> nodes op = fst (normalizeNodes ns (snd (createFromPosition p s)))
             \<and> length (nodes op) = length (items ns)
             \<and> map (nodeCells s') (nodes op) = map (nodeLikeValue s) (items ns)
             \<and> (\<forall>i<length (items ns). \<forall>a. items ns ! i = ANode a \<longrightarrow> nodes op ! i = a)"
proof -
  define s1 where "s1 = s\<lparr> posCells := (posCells s)(posNext s := posCells s p),
                            posNext := Suc (posNext s) \<rparr>"
  have cf: "createFromPosition p s = (posNext s, s1)"
    by (simp add: createFromPosition_def newPosition_def s1_def)
  obtain nl s2 where n: "normalizeList (items ns) s1 = (nl, s2)"
    by (cases "normalizeList (items ns) s1")
  have wf1: "\<forall>a\<in>set (nodeObjects (items ns)). a < nodeNext s1"
    using assms(2) by (simp add: s1_def)
  note fr = normalizeList_frame [OF n]
  note co = normalizeList_contents [OF n wf1]
  have val: "nodeLikeValue s1 x = nodeLikeValue s x" for x
    by (cases x) (simp_all add: s1_def nodeCells_def)
  have res: "newInsertOperation p ns v s =
      (\<lparr> baseVersion = v, position = posNext s, nodes = nl \<rparr>, s2)"
    by (simp add: newInsertOperation_def cf normalizeNodes_def n)
  from fr have pc: "posCells s2 = (posCells s)(posNext s := posCells s p)"
    by (simp add: s1_def)
  from assms(1) pc fr co val show ?thesis
    by (simp add: res cf normalizeNodes_def n)
qed

lemma spacing_small: "m < 9007199254740992 \<Longrightarrow> spacing m = 1"
  by (simp add: spacing.simps)

lemma roundNat_exact: "m \<le> 9007199254740992 \<Longrightarrow> roundNat m = m"
proof (cases "m < 9007199254740992")
  case True
  then show ?thesis by (simp add: roundNat_def spacing_small)
next
  case False
  assume "m \<le> 9007199254740992"
  with False have m: "m = 9007199254740992" by simp
  have "spacing 9007199254740992 = 2"
    by (simp add: spacing.simps [of 9007199254740992] spacing_small)
  then show ?thesis
    by (simp add: roundNat_def m)
qed

lemma plusOne_exact:
  "- 9007199254740992 \<le> v \<Longrightarrow> v < 9007199254740992 \<Longrightarrow> plusOne v = v + 1"
  by (simp add: plusOne_def toDouble_def roundNat_exact)

text \<open>
  C2, as amended. For an operation constructed from position \<open>p\<close>, nodes \<open>ns\<close> and base
  version \<open>v\<close>, \<open>getReversed()\<close> is a removal at the same position, of a width that is
  the sum of the sizes of the nodes (a text node counts its characters, an element counts
  one). Its base version is the number that \<open>v + 1\<close> is in JavaScript, the double nearest
  to the sum: exactly \<open>v + 1\<close> for every integer \<open>v\<close> from \<open>-(2^53)\<close> up to, and not
  including, \<open>2^53\<close>.
\<close>

theorem getReversed_removes_what_was_inserted:
  assumes "\<forall>a\<in>set (nodeObjects (items ns)). a < nodeNext s"
  shows "case newInsertOperation p ns v s of
           (op, s1) \<Rightarrow>
             (case getReversed op s1 of
                (rm, s2) \<Rightarrow>
                  posCells s2 (sourcePosition rm) = posCells s p
                  \<and> howMany rm = sum_list (map (\<lambda>x. offsetSize (nodeLikeValue s x)) (items ns))
                  \<and> baseVersion rm = plusOne v
                  \<and> (- 9007199254740992 \<le> v \<and> v < 9007199254740992 \<longrightarrow>
                       baseVersion rm = v + 1))"
proof -
  define s1 where "s1 = s\<lparr> posCells := (posCells s)(posNext s := posCells s p),
                            posNext := Suc (posNext s) \<rparr>"
  have cf: "createFromPosition p s = (posNext s, s1)"
    by (simp add: createFromPosition_def newPosition_def s1_def)
  obtain nl s2 where n: "normalizeList (items ns) s1 = (nl, s2)"
    by (cases "normalizeList (items ns) s1")
  have wf1: "\<forall>a\<in>set (nodeObjects (items ns)). a < nodeNext s1"
    using assms by (simp add: s1_def)
  note fr = normalizeList_frame [OF n]
  note co = normalizeList_contents [OF n wf1]
  have val: "nodeLikeValue s1 x = nodeLikeValue s x" for x
    by (cases x) (simp_all add: s1_def nodeCells_def)
  have res: "newInsertOperation p ns v s =
      (\<lparr> baseVersion = v, position = posNext s, nodes = nl \<rparr>, s2)"
    by (simp add: newInsertOperation_def cf normalizeNodes_def n)
  from fr have pc: "posCells s2 = (posCells s)(posNext s := posCells s p)"
    by (simp add: s1_def)
  have "maxOffset nl s2 = sum_list (map offsetSize (map (nodeCells s2) nl))"
    by (simp add: maxOffset_def comp_def)
  also from co val have "map (nodeCells s2) nl = map (nodeLikeValue s) (items ns)"
    by simp
  finally have mo: "maxOffset nl s2 =
      sum_list (map (\<lambda>x. offsetSize (nodeLikeValue s x)) (items ns))"
    by (simp add: comp_def)
  from pc mo show ?thesis
    by (simp add: res getReversed_def newRemoveOperation_def createFromPosition_def
        newPosition_def plusOne_exact)
qed

lemma decode_named:
  "named v \<Longrightarrow>
     nodeToJSON v \<noteq> JNull \<and>
     (if truthyJSON (jsonProp (nodeToJSON v) ''name'') then Element_fromJSON (nodeToJSON v)
      else Text_fromJSON (nodeToJSON v)) = Inr v"
proof (induction v)
  case (Text t)
  show ?case by (simp add: jsonProp_def Text_fromJSON_def)
next
  case (Element name cs)
  have "list_all named ds \<Longrightarrow> set ds \<subseteq> set cs \<Longrightarrow>
      Element_children (map nodeToJSON ds) = Inr ds" for ds
  proof (induction ds)
    case Nil
    show ?case by simp
  next
    case (Cons d ds)
    from Cons.prems Element.IH [of d] have
      "nodeToJSON d \<noteq> JNull \<and>
       (if truthyJSON (jsonProp (nodeToJSON d) ''name'') then Element_fromJSON (nodeToJSON d)
        else Text_fromJSON (nodeToJSON d)) = Inr d"
      by simp
    moreover from Cons have "Element_children (map nodeToJSON ds) = Inr ds"
      by simp
    ultimately show ?case
      by simp
  qed
  with Element.prems have "Element_children (map nodeToJSON cs) = Inr cs"
    by simp
  with Element.prems show ?case
    by (simp add: jsonProp_def Element_fromJSON.simps(1))
qed

lemma decode_list:
  "list_all named vs \<Longrightarrow> fromJSON_children (map nodeToJSON vs) = Inr vs"
proof (induction vs)
  case Nil
  show ?case by simp
next
  case (Cons v vs)
  from Cons.prems decode_named [of v] have
    "nodeToJSON v \<noteq> JNull \<and>
     (if truthyJSON (jsonProp (nodeToJSON v) ''name'') then Element_fromJSON (nodeToJSON v)
      else Text_fromJSON (nodeToJSON v)) = Inr v"
    by simp
  moreover from Cons have "fromJSON_children (map nodeToJSON vs) = Inr vs"
    by simp
  ultimately show ?case
    by simp
qed

lemma newNodes_facts:
  "newNodes vs s = (as, s') \<Longrightarrow>
     map (nodeCells s') as = vs \<and> (\<forall>a\<in>set as. a < nodeNext s') \<and>
     nodeNext s \<le> nodeNext s' \<and> posCells s' = posCells s \<and> posNext s' = posNext s \<and>
     (\<forall>a<nodeNext s. objCells s' a = objCells s a)"
proof (induction vs arbitrary: s as s')
  case Nil
  then show ?case by simp
next
  case (Cons v vs)
  obtain a s1 where n: "newNode v s = (a, s1)"
    by (cases "newNode v s")
  obtain as1 s2 where r: "newNodes vs s1 = (as1, s2)"
    by (cases "newNodes vs s1")
  note nf = newNode_facts [OF n]
  from Cons.prems n r have eq: "as = a # as1" "s' = s2"
    by auto
  note ih = Cons.IH [OF r]
  from ih nf have "nodeCells s2 a = v"
    by (simp add: nodeCells_def)
  moreover from ih nf have "a < nodeNext s2" "nodeNext s \<le> nodeNext s2"
    "\<forall>b<nodeNext s. objCells s2 b = objCells s b"
    by auto
  ultimately show ?case
    using ih nf unfolding eq by simp
qed

lemma pathFromJSON_path: "pathFromJSON (map (\<lambda>i. JNum (int i)) p) = Some p"
  by (induction p) simp_all

lemma Position_fromJSON_toJSON:
  "map_of document (root pv) \<noteq> None \<Longrightarrow>
     Position_fromJSON (positionToJSON pv) document = Inr pv"
  by (simp add: Position_fromJSON_def positionToJSON_def jsonProp_def pathFromJSON_path)

lemma fromJSON_facts:
  assumes nm: "\<forall>a\<in>set (nodes op). named (nodeCells s a)"
    and rt: "map_of document (root (posCells s (position op))) \<noteq> None"
  shows "\<exists>op' s'. fromJSON (toJSON op s) document s = Inr (op', s') \<and>
           contentOf op' s' = contentOf op s \<and> (\<forall>a\<in>set (nodes op'). a < nodeNext s')"
proof -
  let ?vs = "map (nodeCells s) (nodes op)"
  let ?pv = "posCells s (position op)"
  from nm have "list_all named ?vs"
    by (simp add: list_all_iff)
  from decode_list [OF this] have dec:
    "fromJSON_children (map (\<lambda>a. nodeToJSON (nodeCells s a)) (nodes op)) = Inr ?vs"
    by (simp add: comp_def)
  obtain children s1 where nn: "newNodes ?vs s = (children, s1)"
    by (cases "newNodes ?vs s")
  note nf = newNodes_facts [OF nn]
  define s2 where "s2 = s1\<lparr> posCells := (posCells s1)(posNext s1 := ?pv),
                             posNext := Suc (posNext s1) \<rparr>"
  define s3 where "s3 = s2\<lparr> posCells := (posCells s2)(posNext s2 := posCells s2 (posNext s1)),
                             posNext := Suc (posNext s2) \<rparr>"
  define op' where "op' = \<lparr> baseVersion = baseVersion op, position = posNext s2,
                            nodes = children \<rparr>"
  have np: "newPosition ?pv s1 = (posNext s1, s2)"
    by (simp add: newPosition_def s2_def)
  have ni: "newInsertOperation (posNext s1) (Many (map ANode children)) (baseVersion op) s2 =
      (op', s3)"
    by (simp add: newInsertOperation_def createFromPosition_def newPosition_def
        normalizeNodes_def normalizeList_nodes s3_def op'_def)
  have res: "fromJSON (toJSON op s) document s = Inr (op', s3)"
    by (simp add: fromJSON_def toJSON_def jsonProp_def dec nn
        Position_fromJSON_toJSON [OF rt, unfolded positionToJSON_def jsonProp_def]
        positionToJSON_def np ni del: fromJSON_children.simps)
  have nc: "nodeCells s3 = nodeCells s1"
    by (simp add: nodeCells_def s3_def s2_def fun_eq_iff)
  from nf have "contentOf op' s3 = contentOf op s"
    by (simp add: contentOf_def op'_def nc) (simp add: s3_def s2_def)
  moreover from nf have "\<forall>a\<in>set (nodes op'). a < nodeNext s3"
    by (simp add: op'_def s3_def s2_def)
  ultimately show ?thesis
    using res by blast
qed

lemma execute_by_content:
  assumes "\<forall>a\<in>set (nodes op). a < nodeNext s"
  shows "(case execute w op s d of (r, op', s', d') \<Rightarrow> (r, d')) =
     (case w (fst (contentOf op s)) (fst (snd (contentOf op s))) d of (r, d', m) \<Rightarrow> (r, d'))"
proof -
  obtain r op' s' d' where ex: "execute w op s d = (r, op', s', d')"
    by (cases "execute w op s d")
  obtain r0 d0 m where wr:
    "w (posCells s (position op)) (map (nodeCells s) (nodes op)) d = (r0, d0, m)"
    by (cases "w (posCells s (position op)) (map (nodeCells s) (nodes op)) d")
  from execute_facts(1,2) [OF assms ex wr] show ?thesis
    by (simp add: ex wr contentOf_def)
qed

text \<open>
  The round trip through the serialized form, for an operation whose elements all have
  non-empty names and whose position names a root of the document: \<open>fromJSON\<close> of the
  serialized operation succeeds and gives an operation that says the same (equal position,
  equal nodes in the same order, equal base version); executed with any writer on any
  document it gives the range and the document that executing the original gives. The
  record of a text node, which has no name, is decoded by \<open>Text.fromJSON\<close>, and the
  record of an element with a non-empty name by \<open>Element.fromJSON\<close>.
\<close>

theorem fromJSON_toJSON_round_trip:
  assumes "\<forall>a\<in>set (nodes op). named (nodeCells s a)"
    and "map_of document (root (posCells s (position op))) \<noteq> None"
  shows "(case fromJSON (toJSON op s) document s of
            Inl e \<Rightarrow> False
          | Inr (op', s') \<Rightarrow>
              contentOf op' s' = contentOf op s
              \<and> ((\<forall>a\<in>set (nodes op). a < nodeNext s) \<longrightarrow>
                   (\<forall>w d. (case execute w op' s' d of (r, op'', s'', d') \<Rightarrow> (r, d')) =
                          (case execute w op s d of (r, op'', s'', d') \<Rightarrow> (r, d')))))
         \<and> fromJSON_children [nodeToJSON (Text t)] =
             map_sum id (\<lambda>n. [n]) (Text_fromJSON (nodeToJSON (Text t)))
         \<and> (name \<noteq> [] \<longrightarrow>
              fromJSON_children [nodeToJSON (Element name cs)] =
                map_sum id (\<lambda>n. [n]) (Element_fromJSON (nodeToJSON (Element name cs))))"
proof -
  from fromJSON_facts [OF assms] obtain op' s' where
    res: "fromJSON (toJSON op s) document s = Inr (op', s')" and
    co: "contentOf op' s' = contentOf op s" and
    wf': "\<forall>a\<in>set (nodes op'). a < nodeNext s'"
    by blast
  have "(case execute w op' s' d of (r, op'', s'', d') \<Rightarrow> (r, d')) =
        (case execute w op s d of (r, op'', s'', d') \<Rightarrow> (r, d'))"
    if "\<forall>a\<in>set (nodes op). a < nodeNext s" for w d
    using execute_by_content [OF wf', of w d] execute_by_content [OF that, of w d] co
    by simp
  with co have 1: "(case fromJSON (toJSON op s) document s of
            Inl e \<Rightarrow> False
          | Inr (op', s') \<Rightarrow>
              contentOf op' s' = contentOf op s
              \<and> ((\<forall>a\<in>set (nodes op). a < nodeNext s) \<longrightarrow>
                   (\<forall>w d. (case execute w op' s' d of (r, op'', s'', d') \<Rightarrow> (r, d')) =
                          (case execute w op s d of (r, op'', s'', d') \<Rightarrow> (r, d')))))"
    by (simp add: res)
  have 2: "fromJSON_children [nodeToJSON (Text t)] =
             map_sum id (\<lambda>n. [n]) (Text_fromJSON (nodeToJSON (Text t)))"
    by (simp add: jsonProp_def Text_fromJSON_def)
  have 3: "fromJSON_children [nodeToJSON (Element name cs)] =
             map_sum id (\<lambda>n. [n]) (Element_fromJSON (nodeToJSON (Element name cs)))"
    if "name \<noteq> []"
    using that by (cases "Element_fromJSON (nodeToJSON (Element name cs))")
       (simp_all add: jsonProp_def)
  from 1 2 3 show ?thesis by blast
qed

lemmas op_defs = exampleStore_def exampleOperation_def emptyNameOperation_def exampleDocument_def
  treeStore_def treeOperation_def
  exampleWriter_def execute_def Let_def clone_node_def newNode_def newPosition_def
  createFromPosition_def newInsertOperation_def normalizeNodes_def setNode_def clone_def
  getReversed_def newRemoveOperation_def maxOffset_def contentOf_def toJSON_def fromJSON_def
  jsonProp_def positionToJSON_def Position_fromJSON_def Text_fromJSON_def
  Element_fromJSON.simps(1) nodeCells_def

text \<open>
  The scenario of the specification: position \<open>(root, 0)\<close>, nodes
  \<open>[TextNode(''ab''), ElementNode(''x'')]\<close>, base version 5. The removal is at
  \<open>(root, 0)\<close>, of width 3, with base version 6.
\<close>

theorem getReversed_scenario:
  "set (nodeObjects (items (Many [ANode 0, ANode 1]))) \<subseteq> {..<nodeNext exampleStore}
   \<and> posCells exampleStore 0 = \<lparr> root = ''root'', path = [0] \<rparr>
   \<and> map (nodeLikeValue exampleStore) [ANode 0, ANode 1] = [Text ''ab'', Element ''x'' []]
   \<and> (case newInsertOperation 0 (Many [ANode 0, ANode 1]) 5 exampleStore of
         (op, s1) \<Rightarrow>
           (case getReversed op s1 of
              (rm, s2) \<Rightarrow>
                posCells s2 (sourcePosition rm) = \<lparr> root = ''root'', path = [0] \<rparr>
                \<and> howMany rm = 3
                \<and> baseVersion rm = 6))"
proof -
  have wf: "\<forall>a\<in>set (nodeObjects (items (Many [ANode 0, ANode 1]))). a < nodeNext exampleStore"
    by (simp add: exampleStore_def)
  from getReversed_removes_what_was_inserted [OF wf, of 0 5] show ?thesis
    by (simp add: op_defs)
qed

text \<open>
  C2 as stated fails from \<open>2^53\<close> on: \<open>2^53 + 1\<close> is no double and the sum is rounded
  to \<open>2^53\<close>. The reversal of an operation with base version \<open>2^53\<close> has base version
  \<open>2^53\<close>, the operation's own, not the next one.
\<close>

theorem getReversed_beyond_exact_integers:
  "plusOne 9007199254740992 = 9007199254740992
   \<and> (case newInsertOperation 0 (Many [ANode 0, ANode 1]) 9007199254740992 exampleStore of
         (op, s1) \<Rightarrow>
           (case getReversed op s1 of
              (rm, s2) \<Rightarrow>
                baseVersion op = 9007199254740992
                \<and> baseVersion rm = 9007199254740992
                \<and> baseVersion rm \<noteq> baseVersion op + 1))"
proof -
  have "spacing 9007199254740993 = 2"
    by (simp add: spacing.simps [of 9007199254740993] spacing_small)
  then have "plusOne 9007199254740992 = 9007199254740992"
    by (simp add: plusOne_def toDouble_def roundNat_def)
  then show ?thesis
    by (simp add: op_defs)
qed


text \<open>
  C8 at the example: a node, a string and a node; the caller's position object is
  overwritten after the construction.
\<close>

theorem constructor_example:
  "0 < posNext exampleStore
   \<and> set (nodeObjects (items (Many [ANode 0, AString ''cd'', ANode 1]))) \<subseteq>
       {..<nodeNext exampleStore}
   \<and> (case newInsertOperation 0 (Many [ANode 0, AString ''cd'', ANode 1]) 5 exampleStore of
         (op, s') \<Rightarrow>
           baseVersion op = 5
           \<and> position op = 1
           \<and> posCells s' (position op) = \<lparr> root = ''root'', path = [0] \<rparr>
           \<and> posCells (s'\<lparr> posCells := (posCells s')(0 := \<lparr> root = ''other'', path = [7] \<rparr>) \<rparr>)
               (position op) = \<lparr> root = ''root'', path = [0] \<rparr>
           \<and> nodes op = [0, 3, 1]
           \<and> map (nodeCells s') (nodes op) = [Text ''ab'', Text ''cd'', Element ''x'' []])"
proof -
  have p: "0 < posNext exampleStore"
    by (simp add: exampleStore_def)
  have wf: "\<forall>a\<in>set (nodeObjects (items (Many [ANode 0, AString ''cd'', ANode 1]))).
      a < nodeNext exampleStore"
    by (simp add: exampleStore_def)
  from constructor_normalizes_and_copies [OF p wf, of 5] show ?thesis
    by (simp add: op_defs)
qed

text \<open>
  C9 at an operation that inserts \<open><p>hi<b>x</b></p>\<close>, four objects: the element, its
  text, the inner element and its text, numbered 0 to 3. The clone's node is object 4, its
  descendants are the objects 5, 6 and 7, and they hold the same subtree. Executing the
  clone, with the writer that gives the inserted element a filler child, changes object 4
  and leaves object 0 and its descendants as they were.
\<close>

theorem clone_example:
  "set (objectsOf treeStore (nodes treeOperation)) \<subseteq> {..<nodeNext treeStore}
   \<and> position treeOperation < posNext treeStore
   \<and> objectsOf treeStore (nodes treeOperation) = [0, 1, 2, 3]
   \<and> (case clone treeOperation treeStore of
         (op2, s2) \<Rightarrow>
           baseVersion op2 = 5
           \<and> position op2 = 1
           \<and> posCells s2 (position op2) = \<lparr> root = ''root'', path = [0] \<rparr>
           \<and> nodes op2 = [4]
           \<and> objCells s2 4 =
               ElementObj ''p'' [(5, TextObj ''hi''), (6, ElementObj ''b'' [(7, TextObj ''x'')])]
           \<and> objectsOf s2 (nodes op2) = [4, 5, 6, 7]
           \<and> map (nodeCells s2) (nodes op2) =
               [Element ''p'' [Text ''hi'', Element ''b'' [Text ''x'']]]
           \<and> map (nodeCells s2) (nodes op2) = map (nodeCells treeStore) (nodes treeOperation)
           \<and> (case execute exampleWriter op2 s2 exampleDocument of
                (r, op3, s3, d') \<Rightarrow>
                  objCells s3 0 =
                    ElementObj ''p''
                      [(1, TextObj ''hi''), (2, ElementObj ''b'' [(3, TextObj ''x'')])]
                  \<and> nodeCells s3 4 =
                      Element ''p'' [Text ''hi'', Element ''b'' [Text ''x''], Text ''filler'']
                  \<and> nodes op3 = [8]))"
proof -
  have wf: "\<forall>b\<in>set (objectsOf treeStore (nodes treeOperation)). b < nodeNext treeStore"
    by (simp add: treeStore_def treeOperation_def)
  have p: "position treeOperation < posNext treeStore"
    by (simp add: treeStore_def treeOperation_def)
  from clone_is_independent [OF wf p] show ?thesis
    by (simp add: op_defs)
qed

text \<open>
  The round trip at the example operation.
\<close>

theorem round_trip_example:
  "list_all named (map (nodeCells exampleStore) (nodes exampleOperation))
   \<and> map_of exampleDocument (root (posCells exampleStore (position exampleOperation))) =
       Some [Text ''hello'']
   \<and> set (nodes exampleOperation) \<subseteq> {..<nodeNext exampleStore}
   \<and> (case fromJSON (toJSON exampleOperation exampleStore) exampleDocument exampleStore of
         Inl e \<Rightarrow> False
       | Inr (op', s') \<Rightarrow>
           contentOf op' s' =
             (\<lparr> root = ''root'', path = [0] \<rparr>, [Text ''ab'', Element ''x'' []], 5)
           \<and> nodes op' = [3, 4]
           \<and> (case execute exampleWriter op' s' exampleDocument of
                (r, op'', s'', d') \<Rightarrow> (r, d')) =
             (case execute exampleWriter exampleOperation exampleStore exampleDocument of
                (r, op'', s'', d') \<Rightarrow> (r, d')))"
proof -
  have nm: "\<forall>a\<in>set (nodes exampleOperation). named (nodeCells exampleStore a)"
    by (simp add: exampleStore_def exampleOperation_def nodeCells_def)
  have rt: "map_of exampleDocument (root (posCells exampleStore (position exampleOperation))) \<noteq>
      None"
    by (simp add: exampleStore_def exampleOperation_def exampleDocument_def)
  from fromJSON_toJSON_round_trip [OF nm rt] show ?thesis
    by (simp add: op_defs)
qed

text \<open>
  C3. The round trip holds when every element has a non-empty name, as shown above. But
  the loop of \<open>fromJSON\<close> tests \<open>child.name\<close> for truthiness where its comment says
  that a child that has a name property is an element. An element whose name is the empty
  string is serialized with a name property, and its record is decoded by
  \<open>Text.fromJSON\<close>: the operation that comes back holds an empty text node where the
  original holds an element, and executing it inserts a span of width 0 where executing
  the original inserts a span of width 1.
\<close>

theorem fromJSON_decodes_empty_name_as_text:
  "contentOf emptyNameOperation exampleStore =
     (\<lparr> root = ''root'', path = [0] \<rparr>, [Element [] []], 5)
   \<and> jsonProp (nodeToJSON (Element [] [])) ''name'' = Some (JStr [])
   \<and> fromJSON_children [nodeToJSON (Element [] [])] = Inr [Text []]
   \<and> map_sum id (\<lambda>(op', s'). contentOf op' s')
       (fromJSON (toJSON emptyNameOperation exampleStore) exampleDocument exampleStore) =
       Inr (\<lparr> root = ''root'', path = [0] \<rparr>, [Text []], 5)
   \<and> fst (execute exampleWriter emptyNameOperation exampleStore exampleDocument) =
       Inr \<lparr> rangeStart = \<lparr> root = ''root'', path = [0] \<rparr>,
               rangeEnd = \<lparr> root = ''root'', path = [1] \<rparr> \<rparr>
   \<and> map_sum id (\<lambda>(op', s'). fst (execute exampleWriter op' s' exampleDocument))
       (fromJSON (toJSON emptyNameOperation exampleStore) exampleDocument exampleStore) =
       Inr (Inr \<lparr> rangeStart = \<lparr> root = ''root'', path = [0] \<rparr>,
                    rangeEnd = \<lparr> root = ''root'', path = [0] \<rparr> \<rparr>)"
  by (simp add: op_defs)

end
